theory Spec2Isabelle
  imports Complex_Main "HOL-Library.Log_Nat"
begin

section \<open>Strings\<close>

text \<open>
  A JavaScript string is a sequence of UTF-16 code units; a code unit is modelled as a
  natural number. \<open>js\<close> writes a string constant of the source from an ASCII literal.
\<close>

type_synonym jsstring = "nat list"

definition js :: "string \<Rightarrow> jsstring" where
  "js s = map of_char s"

text \<open>The class \<open>\s\<close> of a regular expression, which is also what \<open>trim\<close> strips.\<close>

definition isWhiteSpace :: "nat \<Rightarrow> bool" where
  "isWhiteSpace c \<longleftrightarrow>
     c \<in> {0x09, 0x0A, 0x0B, 0x0C, 0x0D, 0x20, 0xA0, 0x1680, 0x2028, 0x2029,
          0x202F, 0x205F, 0x3000, 0xFEFF} \<or> (0x2000 \<le> c \<and> c \<le> 0x200A)"

text \<open>The characters that \<open>.\<close> does not match.\<close>

definition isLineTerminator :: "nat \<Rightarrow> bool" where
  "isLineTerminator c \<longleftrightarrow> c \<in> {0x0A, 0x0D, 0x2028, 0x2029}"

definition trim :: "jsstring \<Rightarrow> jsstring" where
  "trim s = rev (dropWhile isWhiteSpace (rev (dropWhile isWhiteSpace s)))"

text \<open>
  Case folding of a regular expression with the \<open>i\<close> flag. The patterns of the source
  with that flag hold ASCII letters, digits, \<open>+\<close> and the code units 0xC2, 0xC3, 0xB0
  and 0xB8; against each of these the function below identifies exactly the code units
  that the language's canonicalisation identifies.
\<close>

definition canonicalize :: "nat \<Rightarrow> nat" where
  "canonicalize c =
     (if 0x61 \<le> c \<and> c \<le> 0x7A then c - 0x20
      else if 0xE0 \<le> c \<and> c \<le> 0xFE \<and> c \<noteq> 0xF7 then c - 0x20
      else c)"

definition charEq :: "bool \<Rightarrow> nat \<Rightarrow> nat \<Rightarrow> bool" where
  "charEq ignoreCase p c =
     (if ignoreCase then canonicalize p = canonicalize c else p = c)"

text \<open>A literal matched at the current position, and at any position from here on.\<close>

fun matchAt :: "bool \<Rightarrow> jsstring \<Rightarrow> jsstring \<Rightarrow> bool" where
  "matchAt ic [] s = True"
| "matchAt ic (p # ps) [] = False"
| "matchAt ic (p # ps) (c # cs) = (charEq ic p c \<and> matchAt ic ps cs)"

fun matchAnywhere :: "bool \<Rightarrow> jsstring \<Rightarrow> jsstring \<Rightarrow> bool" where
  "matchAnywhere ic lit [] = matchAt ic lit []"
| "matchAnywhere ic lit (c # cs) = (matchAt ic lit (c # cs) \<or> matchAnywhere ic lit cs)"

text \<open>
  \<open>String.prototype.split\<close> with a regular expression whose matches are never empty:
  \<open>sep\<close> gives the length of the match at the start of the rest of the string, if
  there is one; \<open>cur\<close> is the piece collected so far.
\<close>

function jsSplit :: "(jsstring \<Rightarrow> nat option) \<Rightarrow> jsstring \<Rightarrow> jsstring \<Rightarrow> jsstring list" where
  "jsSplit sep cur [] = [cur]"
| "jsSplit sep cur (c # cs) =
     (case sep (c # cs) of
        Some n \<Rightarrow> cur # jsSplit sep [] (drop (n - 1) cs)
      | None \<Rightarrow> jsSplit sep (cur @ [c]) cs)"
  by pat_completeness auto
termination
  by (relation "measure (\<lambda>(sep, cur, s). length s)") auto

section \<open>Notes\<close>

definition NOTE_NAMES :: "jsstring list" where
  "NOTE_NAMES = map js [''C'', ''C#'', ''D'', ''D#'', ''E'', ''F'', ''F#'', ''G'', ''G#'',
                        ''A'', ''A#'', ''B'']"

definition OPEN_STRING_NOTES :: "(int \<times> int) list" where
  "OPEN_STRING_NOTES = [(6, 4), (5, 9), (4, 2), (3, 7), (2, 11), (1, 4)]"

text \<open>The remainder operator \<open>%\<close>: the result has the sign of the dividend.\<close>

definition jsRem :: "int \<Rightarrow> int \<Rightarrow> int" where
  "jsRem a b = sgn a * (\<bar>a\<bar> mod \<bar>b\<bar>)"

definition flatMap :: "(jsstring \<times> jsstring) list" where
  "flatMap = [(js ''C#'', js ''Db''), (js ''D#'', js ''Eb''), (js ''F#'', js ''Gb''),
              (js ''G#'', js ''Ab''), (js ''A#'', js ''Bb'')]"

text \<open>
  \<open>getNoteAtPosition\<close> reads the global \<open>state.useFlats\<close>, passed here as an argument.
  The result is \<open>None\<close> for a string number outside the table of open strings, where
  the source has no note name; every caller passes a string number from 1 to 6.
\<close>

definition getNoteAtPosition :: "bool \<Rightarrow> int \<Rightarrow> int \<Rightarrow> jsstring option" where
  "getNoteAtPosition useFlats stringNum fretNum =
     (case map_of OPEN_STRING_NOTES stringNum of
        None \<Rightarrow> None
      | Some openNoteIndex \<Rightarrow>
          (let noteIndex = jsRem (openNoteIndex + fretNum) 12;
               noteName = NOTE_NAMES ! nat noteIndex
           in if useFlats \<and> 0x23 \<in> set noteName
              then (case map_of flatMap noteName of
                      Some flat \<Rightarrow> Some flat
                    | None \<Rightarrow> Some noteName)
              else Some noteName))"

definition noteMap :: "(jsstring \<times> int) list" where
  "noteMap =
     [(js ''C'', 0), (js ''C#'', 1), (js ''Db'', 1), (js ''D'', 2), (js ''D#'', 3),
      (js ''Eb'', 3), (js ''E'', 4), (js ''F'', 5), (js ''F#'', 6), (js ''Gb'', 6),
      (js ''G'', 7), (js ''G#'', 8), (js ''Ab'', 8), (js ''A'', 9), (js ''A#'', 10),
      (js ''Bb'', 10), (js ''B'', 11)]"

text \<open>
  \<open>getNoteIndex\<close> looks a note name up and answers -1 for a name that is not a key.
  Its callers pass a root (a letter and at most one accidental) or a note name.
\<close>

definition getNoteIndex :: "jsstring \<Rightarrow> int" where
  "getNoteIndex noteName = (case map_of noteMap noteName of Some i \<Rightarrow> i | None \<Rightarrow> -1)"

section \<open>Chord names\<close>

datatype quality =
    Major | Minor | Dim | Aug
  | Maj7 | Dom7 | Min7 | Dim7 | M7b5 | MMaj7 | Aug7
  | Dom9 | Maj9 | Min9 | Add9 | Six | Min6
  | Sus2 | Sus4 | Dom7sus4

text \<open>The tag of the source for each quality.\<close>

fun qualityName :: "quality \<Rightarrow> jsstring" where
  "qualityName Major = js ''major''"
| "qualityName Minor = js ''minor''"
| "qualityName Dim = js ''dim''"
| "qualityName Aug = js ''aug''"
| "qualityName Maj7 = js ''maj7''"
| "qualityName Dom7 = js ''7''"
| "qualityName Min7 = js ''m7''"
| "qualityName Dim7 = js ''dim7''"
| "qualityName M7b5 = js ''m7b5''"
| "qualityName MMaj7 = js ''mMaj7''"
| "qualityName Aug7 = js ''aug7''"
| "qualityName Dom9 = js ''9''"
| "qualityName Maj9 = js ''maj9''"
| "qualityName Min9 = js ''m9''"
| "qualityName Add9 = js ''add9''"
| "qualityName Six = js ''6''"
| "qualityName Min6 = js ''m6''"
| "qualityName Sus2 = js ''sus2''"
| "qualityName Sus4 = js ''sus4''"
| "qualityName Dom7sus4 = js ''7sus4''"

fun CHORD_INTERVALS :: "quality \<Rightarrow> int list option" where
  "CHORD_INTERVALS Major = Some [0, 4, 7]"
| "CHORD_INTERVALS Minor = Some [0, 3, 7]"
| "CHORD_INTERVALS Dim = Some [0, 3, 6]"
| "CHORD_INTERVALS Aug = Some [0, 4, 8]"
| "CHORD_INTERVALS Maj7 = Some [0, 4, 7, 11]"
| "CHORD_INTERVALS Dom7 = Some [0, 4, 7, 10]"
| "CHORD_INTERVALS Min7 = Some [0, 3, 7, 10]"
| "CHORD_INTERVALS Dim7 = Some [0, 3, 6, 9]"
| "CHORD_INTERVALS M7b5 = Some [0, 3, 6, 10]"
| "CHORD_INTERVALS MMaj7 = Some [0, 3, 7, 11]"
| "CHORD_INTERVALS Aug7 = Some [0, 4, 8, 10]"
| "CHORD_INTERVALS Dom9 = Some [0, 4, 7, 10, 14]"
| "CHORD_INTERVALS Maj9 = Some [0, 4, 7, 11, 14]"
| "CHORD_INTERVALS Min9 = Some [0, 3, 7, 10, 14]"
| "CHORD_INTERVALS Add9 = Some [0, 4, 7, 14]"
| "CHORD_INTERVALS Six = Some [0, 4, 7, 9]"
| "CHORD_INTERVALS Min6 = Some [0, 3, 7, 9]"
| "CHORD_INTERVALS Sus2 = Some [0, 2, 7]"
| "CHORD_INTERVALS Sus4 = Some [0, 5, 7]"
| "CHORD_INTERVALS Dom7sus4 = Some [0, 5, 7, 10]"

record chordSymbol =
  root :: jsstring
  quality :: quality
  bass :: "jsstring option"

text \<open>
  One alternative of a quality pattern: a literal anchored at the start (\<open>^lit\<close>) or
  a literal found anywhere (\<open>lit\<close>).
\<close>

datatype alternative = AtStart jsstring | Anywhere jsstring

fun altMatches :: "bool \<Rightarrow> jsstring \<Rightarrow> alternative \<Rightarrow> bool" where
  "altMatches ic s (AtStart lit) = matchAt ic lit s"
| "altMatches ic s (Anywhere lit) = matchAnywhere ic lit s"

text \<open>A rule: the alternatives, the \<open>i\<close> flag, the quality.\<close>

type_synonym qualityPattern = "alternative list \<times> bool \<times> quality"

definition patternTest :: "qualityPattern \<Rightarrow> jsstring \<Rightarrow> bool" where
  "patternTest r s = (case r of (alts, ic, q) \<Rightarrow> list_ex (altMatches ic s) alts)"

text \<open>
  The rules in the order of the source. The three patterns with characters outside
  ASCII are written with the code units that the source file holds.
\<close>

definition qualityPatterns :: "qualityPattern list" where
  "qualityPatterns =
     [([AtStart (js ''m7b5''), AtStart (js ''min7b5''), AtStart [0xC3, 0xB8]], True, M7b5),
      ([AtStart (js ''mmaj7''), AtStart (js ''minmaj7'')], True, MMaj7),
      ([AtStart (js ''m7''), AtStart (js ''min7''), Anywhere (js ''-7'')], False, Min7),
      ([AtStart (js ''m9''), AtStart (js ''min9'')], False, Min9),
      ([AtStart (js ''m6''), AtStart (js ''min6'')], False, Min6),
      ([AtStart (js ''m''), AtStart (js ''min''), Anywhere (js ''-'')], False, Minor),
      ([AtStart (js ''maj7''), AtStart (js ''M7''), AtStart [0xCE, 0x201D, 0x37]], False, Maj7),
      ([AtStart (js ''maj9''), AtStart (js ''M9'')], False, Maj9),
      ([AtStart (js ''dim7''), AtStart [0xC2, 0xB0, 0x37]], True, Dim7),
      ([AtStart (js ''aug7''), AtStart (js ''+7'')], True, Aug7),
      ([AtStart (js ''7sus4'')], True, Dom7sus4),
      ([AtStart (js ''add9'')], True, Add9),
      ([AtStart (js ''sus2'')], True, Sus2),
      ([AtStart (js ''sus4''), AtStart (js ''sus'')], True, Sus4),
      ([AtStart (js ''dim''), AtStart [0xC2, 0xB0]], True, Dim),
      ([AtStart (js ''aug''), AtStart (js ''+'')], True, Aug),
      ([AtStart (js ''9'')], True, Dom9),
      ([AtStart (js ''7'')], True, Dom7),
      ([AtStart (js ''6'')], True, Six)]"

text \<open>The loop over the rules: the first rule that matches decides, the default is major.\<close>

fun classify :: "qualityPattern list \<Rightarrow> jsstring \<Rightarrow> quality" where
  "classify [] s = Major"
| "classify (r # rs) s = (if patternTest r s then snd (snd r) else classify rs s)"

definition isRootLetter :: "nat \<Rightarrow> bool" where
  "isRootLetter c \<longleftrightarrow> (0x41 \<le> c \<and> c \<le> 0x47) \<or> (0x61 \<le> c \<and> c \<le> 0x67)"

definition isAccidental :: "nat \<Rightarrow> bool" where
  "isAccidental c \<longleftrightarrow> c = 0x23 \<or> c = 0x62"

text \<open>\<open>(.*)$\<close>: the rest of the string, which must hold no line terminator.\<close>

definition dotStarToEnd :: "jsstring \<Rightarrow> bool" where
  "dotStarToEnd s = list_all (\<lambda>c. \<not> isLineTerminator c) s"

text \<open>
  The expression \<open>/^([A-Ga-g])([#b]?)(.*)$/\<close>: the three groups of the match, if
  there is one. The optional accidental is greedy and gives way when the rest fails.
\<close>

fun chordRegex :: "jsstring \<Rightarrow> (nat \<times> jsstring \<times> jsstring) option" where
  "chordRegex [] = None"
| "chordRegex [c] = (if isRootLetter c then Some (c, [], []) else None)"
| "chordRegex (c # a # rest) =
     (if \<not> isRootLetter c then None
      else if isAccidental a \<and> dotStarToEnd rest then Some (c, [a], rest)
      else if dotStarToEnd (a # rest) then Some (c, [], a # rest)
      else None)"

text \<open>\<open>toUpperCase\<close> on the root letter, which is one of A to G or a to g.\<close>

definition toUpperCase :: "nat \<Rightarrow> nat" where
  "toUpperCase c = (if 0x61 \<le> c \<and> c \<le> 0x7A then c - 0x20 else c)"

text \<open>
  The slash of a slash chord: \<open>split('/')\<close> cuts the text at every slash; the quality
  text is the first piece and the bass the second.
\<close>

definition slashParts :: "jsstring \<Rightarrow> jsstring list" where
  "slashParts s = jsSplit (\<lambda>r. if hd r = 0x2F then Some 1 else None) [] s"

definition qualityPartOf :: "jsstring \<Rightarrow> jsstring" where
  "qualityPartOf s = (if 0x2F \<in> set s then slashParts s ! 0 else s)"

definition bassOf :: "jsstring \<Rightarrow> jsstring option" where
  "bassOf s = (if 0x2F \<in> set s then Some (slashParts s ! 1) else None)"

definition parseChordName :: "jsstring \<Rightarrow> chordSymbol option" where
  "parseChordName chordName =
     (if chordName = [] then None
      else
        (case chordRegex (trim chordName) of
           None \<Rightarrow> None
         | Some (rootLetter, accidental, qualityPart) \<Rightarrow>
             Some \<lparr>root = toUpperCase rootLetter # accidental,
                   quality = classify qualityPatterns (qualityPartOf qualityPart),
                   bass = bassOf qualityPart\<rparr>))"

definition getChordNotes :: "jsstring \<Rightarrow> quality \<Rightarrow> jsstring list" where
  "getChordNotes rt q =
     (case CHORD_INTERVALS q of
        None \<Rightarrow> []
      | Some intervals \<Rightarrow>
          (let rootIndex = getNoteIndex rt
           in if rootIndex = -1 then []
              else map (\<lambda>interval. NOTE_NAMES ! nat (jsRem (rootIndex + interval) 12))
                     intervals))"

section \<open>Progression text\<close>

text \<open>The separator \<open>/[,\-]+|\s{2,}/\<close> of the first split, and \<open>/\s+/\<close> of the retry.\<close>

definition isCommaHyphen :: "nat \<Rightarrow> bool" where
  "isCommaHyphen c \<longleftrightarrow> c = 0x2C \<or> c = 0x2D"

definition primarySep :: "jsstring \<Rightarrow> nat option" where
  "primarySep s =
     (let n1 = length (takeWhile isCommaHyphen s);
          n2 = length (takeWhile isWhiteSpace s)
      in if 1 \<le> n1 then Some n1 else if 2 \<le> n2 then Some n2 else None)"

definition spaceSep :: "jsstring \<Rightarrow> nat option" where
  "spaceSep s =
     (let n = length (takeWhile isWhiteSpace s) in if 1 \<le> n then Some n else None)"





section \<open>Shape library and the single-voicing resolver\<close>

record chordShape =
  strings :: "int list"
  rootString :: int
  baseFret :: int

record placedShape = chordShape +
  transpose :: int

definition CHORD_SHAPES :: "(jsstring \<times> chordShape) list" where
  "CHORD_SHAPES =
     [(js ''E_major'', \<lparr>strings = [0, 2, 2, 1, 0, 0], rootString = 6, baseFret = 0\<rparr>),
      (js ''E_minor'', \<lparr>strings = [0, 2, 2, 0, 0, 0], rootString = 6, baseFret = 0\<rparr>),
      (js ''A_major'', \<lparr>strings = [-1, 0, 2, 2, 2, 0], rootString = 5, baseFret = 0\<rparr>),
      (js ''A_minor'', \<lparr>strings = [-1, 0, 2, 2, 1, 0], rootString = 5, baseFret = 0\<rparr>),
      (js ''D_major'', \<lparr>strings = [-1, -1, 0, 2, 3, 2], rootString = 4, baseFret = 0\<rparr>),
      (js ''D_minor'', \<lparr>strings = [-1, -1, 0, 2, 3, 1], rootString = 4, baseFret = 0\<rparr>),
      (js ''C_major'', \<lparr>strings = [-1, 3, 2, 0, 1, 0], rootString = 5, baseFret = 0\<rparr>),
      (js ''G_major'', \<lparr>strings = [3, 2, 0, 0, 0, 3], rootString = 6, baseFret = 0\<rparr>),
      (js ''E_7'', \<lparr>strings = [0, 2, 0, 1, 0, 0], rootString = 6, baseFret = 0\<rparr>),
      (js ''E_m7'', \<lparr>strings = [0, 2, 0, 0, 0, 0], rootString = 6, baseFret = 0\<rparr>),
      (js ''E_maj7'', \<lparr>strings = [0, 2, 1, 1, 0, 0], rootString = 6, baseFret = 0\<rparr>),
      (js ''A_7'', \<lparr>strings = [-1, 0, 2, 0, 2, 0], rootString = 5, baseFret = 0\<rparr>),
      (js ''A_m7'', \<lparr>strings = [-1, 0, 2, 0, 1, 0], rootString = 5, baseFret = 0\<rparr>),
      (js ''A_maj7'', \<lparr>strings = [-1, 0, 2, 1, 2, 0], rootString = 5, baseFret = 0\<rparr>),
      (js ''D_7'', \<lparr>strings = [-1, -1, 0, 2, 1, 2], rootString = 4, baseFret = 0\<rparr>),
      (js ''D_m7'', \<lparr>strings = [-1, -1, 0, 2, 1, 1], rootString = 4, baseFret = 0\<rparr>),
      (js ''barre_E_major'', \<lparr>strings = [0, 2, 2, 1, 0, 0], rootString = 6, baseFret = 0\<rparr>),
      (js ''barre_E_minor'', \<lparr>strings = [0, 2, 2, 0, 0, 0], rootString = 6, baseFret = 0\<rparr>),
      (js ''barre_A_major'', \<lparr>strings = [-1, 0, 2, 2, 2, 0], rootString = 5, baseFret = 0\<rparr>),
      (js ''barre_A_minor'', \<lparr>strings = [-1, 0, 2, 2, 1, 0], rootString = 5, baseFret = 0\<rparr>)]"

definition qualityToShape :: "(jsstring \<times> jsstring) list" where
  "qualityToShape =
     [(js ''major'', js ''major''), (js ''minor'', js ''minor''), (js ''7'', js ''7''),
      (js ''m7'', js ''m7''), (js ''maj7'', js ''maj7'')]"

definition placed :: "chordShape \<Rightarrow> int \<Rightarrow> placedShape" where
  "placed s t = \<lparr>strings = strings s, rootString = rootString s, baseFret = baseFret s,
                 transpose = t\<rparr>"

text \<open>The two distances of the resolver, from E and from A to the root.\<close>

definition transposedFromE :: "jsstring \<Rightarrow> int" where
  "transposedFromE rt = jsRem (getNoteIndex rt - getNoteIndex (js ''E'') + 12) 12"

definition transposedFromA :: "jsstring \<Rightarrow> int" where
  "transposedFromA rt = jsRem (getNoteIndex rt - getNoteIndex (js ''A'') + 12) 12"

definition findChordShape :: "jsstring \<Rightarrow> quality \<Rightarrow> placedShape option" where
  "findChordShape rt q =
     (let shapeQuality = (case map_of qualityToShape (qualityName q) of
                            Some s \<Rightarrow> s | None \<Rightarrow> qualityName q);
          openChords = map js [''E'', ''A'', ''D'', ''G'', ''C''];
          shapeKey = rt @ js ''_'' @ shapeQuality
      in if rt \<in> set openChords \<and> map_of CHORD_SHAPES shapeKey \<noteq> None
         then map_option (\<lambda>s. placed s 0) (map_of CHORD_SHAPES shapeKey)
         else
           (let baseShape =
                  (if transposedFromE rt \<le> 7
                   then (case map_of CHORD_SHAPES (js ''E_'' @ shapeQuality) of
                           Some s \<Rightarrow> Some s
                         | None \<Rightarrow> map_of CHORD_SHAPES (js ''E_major''))
                   else (case map_of CHORD_SHAPES (js ''A_'' @ shapeQuality) of
                           Some s \<Rightarrow> Some s
                         | None \<Rightarrow> map_of CHORD_SHAPES (js ''A_major'')));
                transpose = (if transposedFromE rt \<le> 7 then transposedFromE rt
                             else transposedFromA rt)
            in map_option (\<lambda>s. placed s transpose) baseShape))"

record position =
  string :: int
  fret :: int
  isRoot :: bool

text \<open>The index of a note name that may be missing: a missing name is no key of the map.\<close>

definition noteIndexOf :: "jsstring option \<Rightarrow> int" where
  "noteIndexOf n = (case n of None \<Rightarrow> -1 | Some noteName \<Rightarrow> getNoteIndex noteName)"

definition shapeToPositions :: "bool \<Rightarrow> placedShape \<Rightarrow> jsstring \<Rightarrow> position list" where
  "shapeToPositions useFlats shape rt =
     concat (map (\<lambda>(f, index).
        (let stringNum = 6 - int index
         in if 0 \<le> f
            then (let actualFret = f + transpose shape;
                      noteAtPosition = getNoteAtPosition useFlats stringNum actualFret
                  in [\<lparr>string = stringNum, fret = actualFret,
                       isRoot = (noteAtPosition = Some rt \<or>
                                 (1 < length rt \<and>
                                  noteIndexOf noteAtPosition = getNoteIndex rt))\<rparr>])
            else []))
       (zip (strings shape) [0..<length (strings shape)]))"

section \<open>The voicing generator\<close>

datatype family = E_shape | A_shape | D_shape | C_shape | G_shape

record cagedShape =
  strings :: "int list"
  rootString :: int
  rootFret :: int
  name :: jsstring

text \<open>The table of the five families, per quality, in the order of the source.\<close>

fun cagedTable :: "family \<Rightarrow> (quality \<times> cagedShape) list" where
  "cagedTable E_shape =
     [(Major, \<lparr>strings = [0, 2, 2, 1, 0, 0], rootString = 6, rootFret = 0, name = js ''E-shape''\<rparr>),
      (Minor, \<lparr>strings = [0, 2, 2, 0, 0, 0], rootString = 6, rootFret = 0, name = js ''E-shape''\<rparr>),
      (Dom7, \<lparr>strings = [0, 2, 0, 1, 0, 0], rootString = 6, rootFret = 0, name = js ''E-shape''\<rparr>),
      (Min7, \<lparr>strings = [0, 2, 0, 0, 0, 0], rootString = 6, rootFret = 0, name = js ''E-shape''\<rparr>),
      (Maj7, \<lparr>strings = [0, 2, 1, 1, 0, 0], rootString = 6, rootFret = 0, name = js ''E-shape''\<rparr>)]"
| "cagedTable A_shape =
     [(Major, \<lparr>strings = [-1, 0, 2, 2, 2, 0], rootString = 5, rootFret = 0, name = js ''A-shape''\<rparr>),
      (Minor, \<lparr>strings = [-1, 0, 2, 2, 1, 0], rootString = 5, rootFret = 0, name = js ''A-shape''\<rparr>),
      (Dom7, \<lparr>strings = [-1, 0, 2, 0, 2, 0], rootString = 5, rootFret = 0, name = js ''A-shape''\<rparr>),
      (Min7, \<lparr>strings = [-1, 0, 2, 0, 1, 0], rootString = 5, rootFret = 0, name = js ''A-shape''\<rparr>),
      (Maj7, \<lparr>strings = [-1, 0, 2, 1, 2, 0], rootString = 5, rootFret = 0, name = js ''A-shape''\<rparr>)]"
| "cagedTable D_shape =
     [(Major, \<lparr>strings = [-1, -1, 0, 2, 3, 2], rootString = 4, rootFret = 0, name = js ''D-shape''\<rparr>),
      (Minor, \<lparr>strings = [-1, -1, 0, 2, 3, 1], rootString = 4, rootFret = 0, name = js ''D-shape''\<rparr>),
      (Dom7, \<lparr>strings = [-1, -1, 0, 2, 1, 2], rootString = 4, rootFret = 0, name = js ''D-shape''\<rparr>),
      (Min7, \<lparr>strings = [-1, -1, 0, 2, 1, 1], rootString = 4, rootFret = 0, name = js ''D-shape''\<rparr>),
      (Maj7, \<lparr>strings = [-1, -1, 0, 2, 2, 2], rootString = 4, rootFret = 0, name = js ''D-shape''\<rparr>)]"
| "cagedTable C_shape =
     [(Major, \<lparr>strings = [-1, 3, 2, 0, 1, 0], rootString = 5, rootFret = 3, name = js ''C-shape''\<rparr>),
      (Minor, \<lparr>strings = [-1, 3, 1, 0, 1, -1], rootString = 5, rootFret = 3, name = js ''C-shape''\<rparr>),
      (Dom7, \<lparr>strings = [-1, 3, 2, 3, 1, 0], rootString = 5, rootFret = 3, name = js ''C-shape''\<rparr>),
      (Min7, \<lparr>strings = [-1, 3, 1, 3, 1, -1], rootString = 5, rootFret = 3, name = js ''C-shape''\<rparr>),
      (Maj7, \<lparr>strings = [-1, 3, 2, 0, 0, 0], rootString = 5, rootFret = 3, name = js ''C-shape''\<rparr>)]"
| "cagedTable G_shape =
     [(Major, \<lparr>strings = [3, 2, 0, 0, 0, 3], rootString = 6, rootFret = 3, name = js ''G-shape''\<rparr>),
      (Minor, \<lparr>strings = [3, 1, 0, 0, 3, 3], rootString = 6, rootFret = 3, name = js ''G-shape''\<rparr>),
      (Dom7, \<lparr>strings = [3, 2, 0, 0, 0, 1], rootString = 6, rootFret = 3, name = js ''G-shape''\<rparr>),
      (Min7, \<lparr>strings = [3, 1, 0, 0, 3, 1], rootString = 6, rootFret = 3, name = js ''G-shape''\<rparr>),
      (Maj7, \<lparr>strings = [3, 2, 0, 0, 0, 2], rootString = 6, rootFret = 3, name = js ''G-shape''\<rparr>)]"

text \<open>\<open>Object.entries(CAGED_SHAPES)\<close>: the keys in the order the literal lists them.\<close>

definition CAGED_SHAPES :: "(family \<times> (quality \<times> cagedShape) list) list" where
  "CAGED_SHAPES = map (\<lambda>k. (k, cagedTable k)) [E_shape, A_shape, D_shape, C_shape, G_shape]"

definition qualityMap :: "(quality \<times> quality) list" where
  "qualityMap =
     [(Major, Major), (Minor, Minor), (Dom7, Dom7), (Min7, Min7), (Maj7, Maj7),
      (Dim, Minor), (Aug, Major), (Sus4, Major), (Sus2, Major)]"

text \<open>\<open>qualityMap[quality] || 'major'\<close>\<close>

definition shapeQualityOf :: "quality \<Rightarrow> quality" where
  "shapeQualityOf q = (case map_of qualityMap q of Some s \<Rightarrow> s | None \<Rightarrow> Major)"

fun baseNoteIndex :: "family \<Rightarrow> int" where
  "baseNoteIndex E_shape = getNoteIndex (js ''E'')"
| "baseNoteIndex A_shape = getNoteIndex (js ''A'')"
| "baseNoteIndex D_shape = getNoteIndex (js ''D'')"
| "baseNoteIndex C_shape = getNoteIndex (js ''C'')"
| "baseNoteIndex G_shape = getNoteIndex (js ''G'')"

text \<open>The transpose that moves a family's shape to the root.\<close>

definition shapeTranspose :: "int \<Rightarrow> family \<Rightarrow> int" where
  "shapeTranspose rootIndex k = jsRem (rootIndex - baseNoteIndex k + 12) 12"

record voicing =
  chordName :: jsstring
  shapeName :: jsstring
  positions :: "position list"
  baseFret :: int
  avgFret :: rat
  fretSpan :: int

text \<open>
  The variables that the loop over the six strings of a shape updates; \<open>minFret\<close> is
  \<open>None\<close> while it is still \<open>Infinity\<close>.
\<close>

record placing =
  placed_positions :: "position list"
  minFret :: "int option"
  maxFretUsed :: int
  validVoicing :: bool

definition placeString :: "bool \<Rightarrow> int \<Rightarrow> int \<Rightarrow> int \<Rightarrow> int \<times> nat \<Rightarrow> placing \<Rightarrow> placing" where
  "placeString useFlats rootIndex tr maxFret fi st =
     (case fi of (f, index) \<Rightarrow>
        (let stringNum = 6 - int index
         in if 0 \<le> f
            then (let actualFret = f + tr
                  in if maxFret < actualFret then st\<lparr>validVoicing := False\<rparr>
                     else
                       (let noteAtPosition = getNoteAtPosition useFlats stringNum actualFret;
                            st' = st\<lparr>placed_positions := placed_positions st @
                                       [\<lparr>string = stringNum, fret = actualFret,
                                         isRoot = (noteIndexOf noteAtPosition = rootIndex)\<rparr>]\<rparr>
                        in if 0 < actualFret
                           then st'\<lparr>minFret := (case minFret st' of
                                                   None \<Rightarrow> Some actualFret
                                                 | Some m \<Rightarrow> Some (min m actualFret)),
                                    maxFretUsed := max (maxFretUsed st') actualFret\<rparr>
                           else st'))
            else st))"

definition placeShape :: "bool \<Rightarrow> int \<Rightarrow> int \<Rightarrow> int \<Rightarrow> int list \<Rightarrow> placing" where
  "placeShape useFlats rootIndex tr maxFret strs =
     fold (placeString useFlats rootIndex tr maxFret) (zip strs [0..<length strs])
       \<lparr>placed_positions = [], minFret = None, maxFretUsed = 0, validVoicing = True\<rparr>"

text \<open>The body of the loop over the families: the voicing one family contributes, if any.\<close>

definition familyVoicing ::
  "bool \<Rightarrow> jsstring \<Rightarrow> int \<Rightarrow> quality \<Rightarrow> int \<Rightarrow> family \<times> (quality \<times> cagedShape) list \<Rightarrow> voicing list"
where
  "familyVoicing useFlats chord rootIndex shapeQuality maxFret entry =
     (case entry of (shapeKey, shapes) \<Rightarrow>
        (case map_of shapes shapeQuality of
           None \<Rightarrow> []
         | Some shape \<Rightarrow>
             (let tr = shapeTranspose rootIndex shapeKey;
                  st = placeShape useFlats rootIndex tr maxFret (cagedShape.strings shape);
                  ps = placed_positions st;
                  base = (case minFret st of None \<Rightarrow> 0 | Some m \<Rightarrow> m)
              in if validVoicing st \<and> 3 \<le> length ps
                 then [\<lparr>chordName = chord, shapeName = name shape, positions = ps,
                        baseFret = base,
                        avgFret = of_int (sum_list (map fret ps)) / of_int (int (length ps)),
                        fretSpan = maxFretUsed st - base\<rparr>]
                 else [])))"

text \<open>
  \<open>generateAllVoicings\<close>; the sort of the language is stable, as \<open>sort_key\<close> is.
\<close>

definition generateAllVoicings :: "bool \<Rightarrow> jsstring \<Rightarrow> int \<Rightarrow> voicing list" where
  "generateAllVoicings useFlats chord maxFret =
     (case parseChordName chord of
        None \<Rightarrow> []
      | Some parsed \<Rightarrow>
          (let rootIndex = getNoteIndex (root parsed);
               shapeQuality = shapeQualityOf (quality parsed);
               voicings = concat (map (familyVoicing useFlats chord rootIndex shapeQuality maxFret)
                                    CAGED_SHAPES)
           in sort_key avgFret voicings))"

section \<open>Numbers\<close>

text \<open>
  A number of the language is a double. A finite double is modelled as the rational number
  it stands for, and the result of an arithmetic operation as the exact result rounded to
  the nearest double, a tie going to the even significand: a double has 53 significant
  bits, and its unit in the last place is no smaller than \<open>2 powi -1074\<close>.
  \<open>floorLog2\<close> is the exponent of the leading bit of a positive rational.

  The largest double is not modelled as a bound. With options that are finite doubles, the
  only results of the optimizer that can pass it are the two ends of the range of frets;
  they are compared with a mean fret, and in that comparison the exact sum decides as the
  infinity of the language does. A cost stays within the doubles, since a sum that passes
  the largest double by less than half a unit in the last place is rounded back to it.
\<close>

definition roundHalfEven :: "rat \<Rightarrow> int" where
  "roundHalfEven z =
     (let f = \<lfloor>z\<rfloor>; r = z - of_int f
      in if r < 1 / 2 then f else if 1 / 2 < r then f + 1 else if even f then f else f + 1)"

definition floorLog2 :: "rat \<Rightarrow> int" where
  "floorLog2 x =
     (case quotient_of x of
        (p, q) \<Rightarrow> (let d = bitlen p - bitlen q in if 2 powi d \<le> x then d else d - 1))"

definition roundPositive :: "rat \<Rightarrow> rat" where
  "roundPositive x =
     (let e = max (floorLog2 x - 52) (- 1074)
      in of_int (roundHalfEven (x / 2 powi e)) * 2 powi e)"

definition roundDouble :: "rat \<Rightarrow> rat" where
  "roundDouble x =
     (if x = 0 then 0 else if 0 < x then roundPositive x else - roundPositive (- x))"


definition jsAdd :: "rat \<Rightarrow> rat \<Rightarrow> rat" where
  "jsAdd a b = roundDouble (a + b)"

definition jsSub :: "rat \<Rightarrow> rat \<Rightarrow> rat" where
  "jsSub a b = roundDouble (a - b)"

definition jsMul :: "rat \<Rightarrow> rat \<Rightarrow> rat" where
  "jsMul a b = roundDouble (a * b)"

section \<open>The progression optimizer\<close>

text \<open>
  The field \<open>avgFret\<close> of a voicing holds the double that the division of the source
  gives: the quotient, which the record keeps, rounded.
\<close>

definition avgFretDouble :: "voicing \<Rightarrow> rat" where
  "avgFretDouble v = roundDouble (avgFret v)"

definition calculateMovementCost :: "voicing \<Rightarrow> voicing \<Rightarrow> rat" where
  "calculateMovementCost voicing1 voicing2 =
     (let fretDiff = \<bar>jsSub (avgFretDouble voicing1) (avgFretDouble voicing2)\<bar>;
          spanDiff = \<bar>jsSub (of_int (fretSpan voicing1)) (of_int (fretSpan voicing2))\<bar>;
          shapeBonus = (if shapeName voicing1 = shapeName voicing2 then -1 else 0)
      in jsAdd (jsAdd (jsMul fretDiff 2) (jsMul spanDiff (1 / 2))) shapeBonus)"

text \<open>
  The candidates of every chord: the voicings within the preferred range of frets, and
  all voicings of the chord where that leaves none.
\<close>

definition allVoicings :: "bool \<Rightarrow> rat \<Rightarrow> rat \<Rightarrow> jsstring list \<Rightarrow> voicing list list" where
  "allVoicings useFlats preferredFret fretRange chordNames =
     (let filtered =
            map (\<lambda>chord. filter (\<lambda>v. jsSub preferredFret fretRange \<le> avgFretDouble v
                                     \<and> avgFretDouble v \<le> jsAdd preferredFret fretRange)
                            (generateAllVoicings useFlats chord 15))
              chordNames
      in map (\<lambda>(vs, chord). if vs = [] then generateAllVoicings useFlats chord 15 else vs)
           (zip filtered chordNames))"

text \<open>A cost of the table is a number or \<open>Infinity\<close>, which is \<open>None\<close> here.\<close>

fun costLess :: "rat option \<Rightarrow> rat option \<Rightarrow> bool" where
  "costLess (Some a) (Some b) = (a < b)"
| "costLess (Some a) None = True"
| "costLess None b = False"

fun costPlus :: "rat option \<Rightarrow> rat \<Rightarrow> rat option" where
  "costPlus (Some a) m = Some (jsAdd a m)"
| "costPlus None m = None"

record dpCell =
  cost :: "rat option"
  prev :: int

text \<open>
  The update that both searches for a minimum make: the best cost and its index so far
  give way to index \<open>k\<close> when the cost at \<open>k\<close> is strictly less.
\<close>

definition improve :: "(nat \<Rightarrow> rat option) \<Rightarrow> nat \<Rightarrow> rat option \<times> int \<Rightarrow> rat option \<times> int" where
  "improve f k best = (if costLess (f k) (fst best) then (f k, int k) else best)"

text \<open>The loop over \<open>k\<close> for one voicing of a layer: the cell starts at \<open>Infinity\<close> and -1.\<close>

definition relaxCell :: "voicing list \<Rightarrow> dpCell list \<Rightarrow> voicing \<Rightarrow> dpCell" where
  "relaxCell prevVoicings prevCells v =
     (let best = fold (improve (\<lambda>k. costPlus (cost (prevCells ! k))
                                      (calculateMovementCost (prevVoicings ! k) v)))
                   [0..<length prevVoicings] (None, -1)
      in \<lparr>cost = fst best, prev = snd best\<rparr>)"

text \<open>The rows of the table after the first, each from the row before it.\<close>

fun fillDP :: "dpCell list \<Rightarrow> voicing list \<Rightarrow> voicing list list \<Rightarrow> dpCell list list" where
  "fillDP prevCells prevVoicings [] = []"
| "fillDP prevCells prevVoicings (vs # rest) =
     (let cells = map (relaxCell prevVoicings prevCells) vs
      in cells # fillDP cells vs rest)"

text \<open>The search for the best ending: \<open>minCost\<close> starts at \<open>Infinity\<close>, \<open>lastIndex\<close> at 0.\<close>

definition bestEnding :: "dpCell list \<Rightarrow> int" where
  "bestEnding cells = snd (fold (improve (\<lambda>i. cost (cells ! i))) [0..<length cells] (None, 0))"

text \<open>
  The walk back from the last row to the first; the rows come last row first. An index
  outside a row reads an undefined cell, and reading its \<open>prev\<close> throws: the result is
  \<open>None\<close>.
\<close>

fun backtrack :: "voicing list list \<Rightarrow> dpCell list list \<Rightarrow> int \<Rightarrow> voicing list \<Rightarrow> voicing list option" where
  "backtrack (vs # vss) (cells # cellss) lastIndex result =
     (if 0 \<le> lastIndex \<and> nat lastIndex < length cells
      then backtrack vss cellss (prev (cells ! nat lastIndex)) (vs ! nat lastIndex # result)
      else None)"
| "backtrack [] cellss lastIndex result = Some result"
| "backtrack vss [] lastIndex result = Some result"

text \<open>
  \<open>optimizeProgression\<close>, with the two options as arguments. \<open>None\<close> is the exception
  that the source throws when a chord has no candidate.
\<close>

definition optimizeProgression :: "bool \<Rightarrow> jsstring list \<Rightarrow> rat \<Rightarrow> rat \<Rightarrow> voicing list option" where
  "optimizeProgression useFlats chordNames preferredFret fretRange =
     (if chordNames = [] then Some []
      else
        (let allV = allVoicings useFlats preferredFret fretRange chordNames;
             n = length chordNames
         in if n = 1
            then (case allV ! 0 of
                    [] \<Rightarrow> None
                  | v # vs \<Rightarrow>
                      Some [fold (\<lambda>v best. if \<bar>jsSub (avgFretDouble v) preferredFret\<bar>
                                                < \<bar>jsSub (avgFretDouble best) preferredFret\<bar>
                                             then v else best) vs v])
            else
              (let cells0 = map (\<lambda>v. \<lparr>cost = Some \<bar>jsSub (avgFretDouble v) preferredFret\<bar>,
                                         prev = -1\<rparr>)
                              (allV ! 0);
                   dp = cells0 # fillDP cells0 (allV ! 0) (tl allV)
               in backtrack (rev allV) (rev dp) (bestEnding (last dp)) [])))"

text \<open>
  The statement of the optimum: the candidates of one chord, a choice of one candidate
  per chord, the movement cost written out, and the total cost of a choice as the
  source adds it up, from the first chord on.
\<close>

definition candidates :: "bool \<Rightarrow> rat \<Rightarrow> rat \<Rightarrow> jsstring \<Rightarrow> voicing list" where
  "candidates useFlats preferredFret fretRange chord =
     (let inRange = filter (\<lambda>v. jsSub preferredFret fretRange \<le> avgFretDouble v
                                \<and> avgFretDouble v \<le> jsAdd preferredFret fretRange)
                      (generateAllVoicings useFlats chord 15)
      in if inRange = [] then generateAllVoicings useFlats chord 15 else inRange)"

definition chooses :: "voicing list \<Rightarrow> voicing list list \<Rightarrow> bool" where
  "chooses path layers = list_all2 (\<lambda>v vs. v \<in> set vs) path layers"

definition movementCost :: "voicing \<Rightarrow> voicing \<Rightarrow> rat" where
  "movementCost a b =
     jsAdd (jsAdd (jsMul \<bar>jsSub (avgFretDouble a) (avgFretDouble b)\<bar> 2)
                  (jsMul \<bar>jsSub (of_int (fretSpan a)) (of_int (fretSpan b))\<bar> (1 / 2)))
           (if shapeName a = shapeName b then - 1 else 0)"

fun costFrom :: "rat \<Rightarrow> voicing \<Rightarrow> voicing list \<Rightarrow> rat" where
  "costFrom c u [] = c"
| "costFrom c u (v # rest) = costFrom (jsAdd c (movementCost u v)) v rest"

definition totalCost :: "rat \<Rightarrow> voicing list \<Rightarrow> rat" where
  "totalCost preferredFret path =
     costFrom \<bar>jsSub (avgFretDouble (hd path)) preferredFret\<bar> (hd path) (tl path)"

text \<open>
  What the table holds when its rows are right, the rows last row first: from every cell
  of the last row the walk back gives a choice that ends at the cell's voicing, has the
  cell's cost and is no dearer than any other choice that ends there.
\<close>

definition solved :: "rat \<Rightarrow> voicing list list \<Rightarrow> dpCell list list \<Rightarrow> bool" where
  "solved pf revL revD \<longleftrightarrow>
     revL \<noteq> [] \<and> length revD = length revL \<and> hd revL \<noteq> []
   \<and> length (hd revD) = length (hd revL)
   \<and> (\<forall>j < length (hd revL).
        \<exists>q. (\<forall>acc. backtrack revL revD (int j) acc = Some (q @ acc))
           \<and> chooses q (rev revL) \<and> last q = hd revL ! j
           \<and> cost (hd revD ! j) = Some (totalCost pf q)
           \<and> (\<forall>p. chooses p (rev revL) \<and> last p = hd revL ! j
                  \<longrightarrow> totalCost pf q \<le> totalCost pf p))"

text \<open>
  The total cost in exact arithmetic: the distance of the first mean fret from the
  preferred fret, and for every consecutive pair twice the distance of the mean frets,
  half the distance of the fret spans, and one less for the same shape family.
\<close>

definition exactMovementCost :: "voicing \<Rightarrow> voicing \<Rightarrow> rat" where
  "exactMovementCost a b =
     2 * \<bar>avgFret a - avgFret b\<bar> + (1 / 2) * of_int \<bar>fretSpan a - fretSpan b\<bar>
       + (if shapeName a = shapeName b then - 1 else 0)"

fun exactTransitions :: "voicing list \<Rightarrow> rat" where
  "exactTransitions (v # w # rest) = exactMovementCost v w + exactTransitions (w # rest)"
| "exactTransitions path = 0"

definition exactTotalCost :: "rat \<Rightarrow> voicing list \<Rightarrow> rat" where
  "exactTotalCost preferredFret path =
     \<bar>avgFret (hd path) - preferredFret\<bar> + exactTransitions path"

section \<open>Notions used to state and prove the properties\<close>


text \<open>The position that the loop pushes for a sounded string of a shape.\<close>

definition mkPosition :: "bool \<Rightarrow> int \<Rightarrow> int \<Rightarrow> int \<times> nat \<Rightarrow> position" where
  "mkPosition useFlats rootIndex tr fi =
     \<lparr>string = 6 - int (snd fi), fret = fst fi + tr,
      isRoot = (noteIndexOf (getNoteAtPosition useFlats (6 - int (snd fi)) (fst fi + tr))
                  = rootIndex)\<rparr>"

definition fits :: "int \<Rightarrow> int \<Rightarrow> int \<times> nat \<Rightarrow> bool" where
  "fits tr maxFret fi \<longleftrightarrow> 0 \<le> fst fi \<and> fst fi + tr \<le> maxFret"

text \<open>The entries of a shape that are not muted, each with its index.\<close>

definition sounded :: "int list \<Rightarrow> (int \<times> nat) list" where
  "sounded strs = filter (\<lambda>fi. 0 \<le> fst fi) (zip strs [0..<length strs])"

definition shownName :: "bool \<Rightarrow> jsstring \<Rightarrow> jsstring" where
  "shownName useFlats noteName =
     (if useFlats \<and> 0x23 \<in> set noteName
      then (case map_of flatMap noteName of Some fl \<Rightarrow> fl | None \<Rightarrow> noteName)
      else noteName)"

fun familyName :: "family \<Rightarrow> jsstring" where
  "familyName E_shape = js ''E-shape''"
| "familyName A_shape = js ''A-shape''"
| "familyName D_shape = js ''D-shape''"
| "familyName C_shape = js ''C-shape''"
| "familyName G_shape = js ''G-shape''"

text \<open>What a voicing of the output owes to the shape it was built from.\<close>

definition builtFrom ::
  "bool \<Rightarrow> int \<Rightarrow> chordSymbol \<Rightarrow> family \<Rightarrow> cagedShape \<Rightarrow> voicing \<Rightarrow> bool" where
  "builtFrom uf mf parsed k shape v \<longleftrightarrow>
     map_of (cagedTable k) (shapeQualityOf (quality parsed)) = Some shape
   \<and> (\<forall>f \<in> set (cagedShape.strings shape).
         0 \<le> f \<longrightarrow> f + shapeTranspose (getNoteIndex (root parsed)) k \<le> mf)
   \<and> positions v = map (mkPosition uf (getNoteIndex (root parsed))
                           (shapeTranspose (getNoteIndex (root parsed)) k))
                       (sounded (cagedShape.strings shape))
   \<and> 3 \<le> length (positions v)
   \<and> shapeName v = familyName k
   \<and> avgFret v = of_int (sum_list (map fret (positions v)))
                   / of_int (int (length (positions v)))"

text \<open>The mean fret of a shape moved up by a transpose.\<close>

definition avgOf :: "int list \<Rightarrow> int \<Rightarrow> rat" where
  "avgOf strs tr =
     of_int (sum_list (map (\<lambda>f. f + tr) (filter (\<lambda>f. 0 \<le> f) strs)))
       / of_int (int (length (filter (\<lambda>f. 0 \<le> f) strs)))"

definition familyAvg :: "quality \<Rightarrow> int \<Rightarrow> family \<Rightarrow> rat option" where
  "familyAvg q r k =
     map_option (\<lambda>s. avgOf (cagedShape.strings s) (shapeTranspose r k))
       (map_of (cagedTable k) q)"

text \<open>The order of the families E, A, D, G, C, read from the name of a voicing's shape.\<close>

definition claimedOrder :: "jsstring \<Rightarrow> nat" where
  "claimedOrder n =
     (if n = js ''E-shape'' then 0 else if n = js ''A-shape'' then 1
      else if n = js ''D-shape'' then 2 else if n = js ''G-shape'' then 3
      else if n = js ''C-shape'' then 4 else 5)"

text \<open>Ascending by mean fret, and by the order of the families where the means are equal.\<close>

definition byAvgThenOrder :: "voicing \<Rightarrow> voicing \<Rightarrow> bool" where
  "byAvgThenOrder u v \<longleftrightarrow>
     avgFret u < avgFret v \<or>
     (avgFret u = avgFret v \<and> claimedOrder (shapeName u) < claimedOrder (shapeName v))"

text \<open>The one voicing of A minor that fits below fret 4.\<close>

definition Am_open :: voicing where
  "Am_open =
     \<lparr>chordName = js ''Am'', shapeName = js ''A-shape'',
      positions = [\<lparr>string = 5, fret = 0, isRoot = True\<rparr>,
                   \<lparr>string = 4, fret = 2, isRoot = False\<rparr>,
                   \<lparr>string = 3, fret = 2, isRoot = True\<rparr>,
                   \<lparr>string = 2, fret = 1, isRoot = False\<rparr>,
                   \<lparr>string = 1, fret = 0, isRoot = False\<rparr>],
      baseFret = 1, avgFret = 1, fretSpan = 1\<rparr>"

text \<open>
  The pitch class that the spelling of a root names: the semitone of the letter above C,
  one more with a sharp and one less with a flat, modulo 12. On the keys of the note
  table it is the index that the table holds.
\<close>

definition letterPitch :: "nat \<Rightarrow> int" where
  "letterPitch c =
     (if c = 0x43 then 0 else if c = 0x44 then 2 else if c = 0x45 then 4
      else if c = 0x46 then 5 else if c = 0x47 then 7 else if c = 0x41 then 9 else 11)"

definition pitchClassOfRoot :: "jsstring \<Rightarrow> int" where
  "pitchClassOfRoot r =
     (case r of
        [] \<Rightarrow> 0
      | letter # accidental \<Rightarrow>
          (letterPitch letter
             + (if accidental = js ''#'' then 1 else if accidental = js ''b'' then -1 else 0))
          mod 12)"

text \<open>The A-shape voicing that the generator returns for the chord name Cb.\<close>

definition Cb_A_shape :: voicing where
  "Cb_A_shape =
     \<lparr>chordName = js ''Cb'', shapeName = js ''A-shape'',
      positions = [\<lparr>string = 5, fret = 2, isRoot = False\<rparr>,
                   \<lparr>string = 4, fret = 4, isRoot = False\<rparr>,
                   \<lparr>string = 3, fret = 4, isRoot = False\<rparr>,
                   \<lparr>string = 2, fret = 4, isRoot = False\<rparr>,
                   \<lparr>string = 1, fret = 2, isRoot = False\<rparr>],
      baseFret = 2, avgFret = 16 / 5, fretSpan = 2\<rparr>"

text \<open>
  The five voicings of A minor seventh up to fret 15, in the order of the output, and a
  preferred fret, the double 1.9666666666666668, which lies between the mean frets of the
  first two.
\<close>

definition Am7_A_shape :: voicing where
  "Am7_A_shape =
     \<lparr>chordName = js ''Am7'', shapeName = js ''A-shape'',
      positions = [\<lparr>string = 5, fret = 0, isRoot = True\<rparr>,
                   \<lparr>string = 4, fret = 2, isRoot = False\<rparr>,
                   \<lparr>string = 3, fret = 0, isRoot = False\<rparr>,
                   \<lparr>string = 2, fret = 1, isRoot = False\<rparr>,
                   \<lparr>string = 1, fret = 0, isRoot = False\<rparr>],
      baseFret = 1, avgFret = 3 / 5, fretSpan = 1\<rparr>"

definition Am7_G_shape :: voicing where
  "Am7_G_shape =
     \<lparr>chordName = js ''Am7'', shapeName = js ''G-shape'',
      positions = [\<lparr>string = 6, fret = 5, isRoot = True\<rparr>,
                   \<lparr>string = 5, fret = 3, isRoot = False\<rparr>,
                   \<lparr>string = 4, fret = 2, isRoot = False\<rparr>,
                   \<lparr>string = 3, fret = 2, isRoot = True\<rparr>,
                   \<lparr>string = 2, fret = 5, isRoot = False\<rparr>,
                   \<lparr>string = 1, fret = 3, isRoot = False\<rparr>],
      baseFret = 2, avgFret = 10 / 3, fretSpan = 3\<rparr>"

definition Am7_E_shape :: voicing where
  "Am7_E_shape =
     \<lparr>chordName = js ''Am7'', shapeName = js ''E-shape'',
      positions = [\<lparr>string = 6, fret = 5, isRoot = True\<rparr>,
                   \<lparr>string = 5, fret = 7, isRoot = False\<rparr>,
                   \<lparr>string = 4, fret = 5, isRoot = False\<rparr>,
                   \<lparr>string = 3, fret = 5, isRoot = False\<rparr>,
                   \<lparr>string = 2, fret = 5, isRoot = False\<rparr>,
                   \<lparr>string = 1, fret = 5, isRoot = True\<rparr>],
      baseFret = 5, avgFret = 16 / 3, fretSpan = 2\<rparr>"

definition Am7_D_shape :: voicing where
  "Am7_D_shape =
     \<lparr>chordName = js ''Am7'', shapeName = js ''D-shape'',
      positions = [\<lparr>string = 4, fret = 7, isRoot = True\<rparr>,
                   \<lparr>string = 3, fret = 9, isRoot = False\<rparr>,
                   \<lparr>string = 2, fret = 8, isRoot = False\<rparr>,
                   \<lparr>string = 1, fret = 8, isRoot = False\<rparr>],
      baseFret = 7, avgFret = 8, fretSpan = 2\<rparr>"

definition Am7_C_shape :: voicing where
  "Am7_C_shape =
     \<lparr>chordName = js ''Am7'', shapeName = js ''C-shape'',
      positions = [\<lparr>string = 5, fret = 12, isRoot = True\<rparr>,
                   \<lparr>string = 4, fret = 10, isRoot = False\<rparr>,
                   \<lparr>string = 3, fret = 12, isRoot = False\<rparr>,
                   \<lparr>string = 2, fret = 10, isRoot = True\<rparr>],
      baseFret = 10, avgFret = 11, fretSpan = 2\<rparr>"

definition nearTie :: rat where
  "nearTie = 1107134908395247 / 562949953421312"

section \<open>Chord names: evaluation and failure\<close>

lemmas str_defs = js_def trim_def isWhiteSpace_def isRootLetter_def isAccidental_def
  dotStarToEnd_def isLineTerminator_def toUpperCase_def qualityPatterns_def patternTest_def
  charEq_def canonicalize_def isCommaHyphen_def primarySep_def spaceSep_def
  slashParts_def qualityPartOf_def bassOf_def

lemma parse_examples:
  "parseChordName (js ''Am'') = Some \<lparr>root = js ''A'', quality = Minor, bass = None\<rparr>"
  "parseChordName (js ''C'') = Some \<lparr>root = js ''C'', quality = Major, bass = None\<rparr>"
  "parseChordName (js ''G'') = Some \<lparr>root = js ''G'', quality = Major, bass = None\<rparr>"
  "parseChordName (js ''xx'') = None"
  "parseChordName (js ''Adim'') = Some \<lparr>root = js ''A'', quality = Dim, bass = None\<rparr>"
  "parseChordName (js ''Am6'') = Some \<lparr>root = js ''A'', quality = Min6, bass = None\<rparr>"
  by (simp_all add: parseChordName_def str_defs)

lemma rootLetter_not_terminator: "isRootLetter c \<Longrightarrow> \<not> isLineTerminator c"
  by (auto simp: isRootLetter_def isLineTerminator_def)

lemma accidental_not_terminator: "isAccidental c \<Longrightarrow> \<not> isLineTerminator c"
  by (auto simp: isAccidental_def isLineTerminator_def)

lemma chordRegex_None_iff:
  "chordRegex t = None \<longleftrightarrow>
     t = [] \<or> \<not> isRootLetter (hd t) \<or> (\<exists>c \<in> set t. isLineTerminator c)"
proof (cases t rule: chordRegex.cases)
  case 1
  then show ?thesis by simp
next
  case (2 c)
  then show ?thesis by (auto dest: rootLetter_not_terminator)
next
  case (3 c a rest)
  show ?thesis
  proof (cases "isRootLetter c")
    case False
    with 3 show ?thesis by simp
  next
    case True
    note c = rootLetter_not_terminator[OF True]
    show ?thesis
    proof (cases "isAccidental a")
      case True
      with \<open>isRootLetter c\<close> c 3 accidental_not_terminator[OF True] show ?thesis
        by (auto simp: dotStarToEnd_def list_all_iff)
    next
      case False
      with \<open>isRootLetter c\<close> c 3 show ?thesis
        by (auto simp: dotStarToEnd_def list_all_iff)
    qed
  qed
qed

lemma trim_Nil: "trim [] = []"
  by (simp add: trim_def)

lemma parseChordName_None_iff:
  "parseChordName s = None \<longleftrightarrow>
     trim s = [] \<or> \<not> isRootLetter (hd (trim s)) \<or> (\<exists>c \<in> set (trim s). isLineTerminator c)"
proof (cases "s = []")
  case True
  then show ?thesis by (simp add: parseChordName_def trim_Nil)
next
  case False
  then have "parseChordName s = None \<longleftrightarrow> chordRegex (trim s) = None"
    by (simp add: parseChordName_def split: option.splits)
  then show ?thesis by (simp only: chordRegex_None_iff)
qed

lemma classify_default:
  "\<forall>r \<in> set rs. \<not> patternTest r s \<Longrightarrow> classify rs s = Major"
  by (induction rs) simp_all

lemma parseChordName_quality:
  assumes "chordRegex (trim s) = Some (l, a, q)"
  shows "map_option quality (parseChordName s)
           = Some (classify qualityPatterns (qualityPartOf q))"
proof -
  from assms have "trim s \<noteq> []" by auto
  then have "s \<noteq> []" by (auto simp: trim_Nil)
  with assms show ?thesis by (simp add: parseChordName_def)
qed

text \<open>
  Claim C2, evaluated on the source: \<open>parseChordName("F#maj7")\<close> has the root F# and
  no bass, but its quality is minor, not major seventh: the rule for a leading \<open>m\<close>
  stands before the rule for \<open>maj7\<close> and matches first. \<open>getChordNotes("F#", "maj7")\<close> is
  F#, A#, C#, F, the offsets 0, 4, 7, 11 from pitch class 6.
\<close>

theorem parseChordName_Fsharp_maj7_is_minor:
  "parseChordName (js ''F#maj7'') = Some \<lparr>root = js ''F#'', quality = Minor, bass = None\<rparr>
   \<and> patternTest ([AtStart (js ''m''), AtStart (js ''min''), Anywhere (js ''-'')], False, Minor)
        (js ''maj7'')
   \<and> getNoteIndex (js ''F#'') = 6
   \<and> getChordNotes (js ''F#'') Maj7 = map js [''F#'', ''A#'', ''C#'', ''F'']"
  by (simp add: parseChordName_def str_defs getChordNotes_def getNoteIndex_def noteMap_def
        NOTE_NAMES_def jsRem_def)

text \<open>
  Claim C8 as stated fails: the input \<open>A\<close>, line feed, \<open>m\<close> is not empty after trimming
  and begins with the root letter A, yet \<open>parseChordName\<close> answers null, because \<open>.\<close> in
  the expression of the parser does not match a line terminator.
\<close>

theorem parseChordName_line_feed_counterexample:
  "parseChordName [0x41, 0x0A, 0x6D] = None
   \<and> trim [0x41, 0x0A, 0x6D] \<noteq> []
   \<and> isRootLetter (hd (trim [0x41, 0x0A, 0x6D]))"
  by (simp add: parseChordName_def str_defs)

text \<open>
  Claim C8, amended: \<open>parseChordName\<close> answers null exactly when its input, trimmed, is
  empty, or does not begin with a root letter A to G in either case, or holds a line
  terminator. For every other input it answers a chord symbol, whose quality is major when
  no quality rule matches the quality text. \<open>generateAllVoicings\<close> answers the empty list
  whenever its input fails chord parsing.
\<close>

theorem parseChordName_null_cases:
  "(parseChordName s = None \<longleftrightarrow>
      trim s = [] \<or> \<not> isRootLetter (hd (trim s)) \<or> (\<exists>c \<in> set (trim s). isLineTerminator c))
   \<and> (\<forall>l a q. chordRegex (trim s) = Some (l, a, q)
              \<and> (\<forall>r \<in> set qualityPatterns. \<not> patternTest r (qualityPartOf q))
          \<longrightarrow> map_option quality (parseChordName s) = Some Major)
   \<and> (parseChordName s = None \<longrightarrow> generateAllVoicings useFlats s maxFret = [])"
proof (intro conjI allI impI)
  show "parseChordName s = None \<longleftrightarrow>
      trim s = [] \<or> \<not> isRootLetter (hd (trim s)) \<or> (\<exists>c \<in> set (trim s). isLineTerminator c)"
    by (rule parseChordName_None_iff)
next
  fix l a q
  assume h: "chordRegex (trim s) = Some (l, a, q)
              \<and> (\<forall>r \<in> set qualityPatterns. \<not> patternTest r (qualityPartOf q))"
  then have "classify qualityPatterns (qualityPartOf q) = Major"
    by (intro classify_default) simp
  with parseChordName_quality[of s l a q] h
  show "map_option quality (parseChordName s) = Some Major" by simp
next
  assume "parseChordName s = None"
  then show "generateAllVoicings useFlats s maxFret = []"
    by (simp add: generateAllVoicings_def)
qed

theorem parseChordName_null_cases_witness:
  "parseChordName (js ''xx'') = None
   \<and> \<not> isRootLetter (hd (trim (js ''xx'')))
   \<and> generateAllVoicings False (js ''xx'') 15 = []
   \<and> chordRegex (trim (js ''C'')) = Some (0x43, [], [])
   \<and> map_option quality (parseChordName (js ''C'')) = Some Major"
proof -
  have a: "\<not> isRootLetter (hd (trim (js ''xx'')))" by (simp add: str_defs)
  have b: "chordRegex (trim (js ''C'')) = Some (0x43, [], [])" by (simp add: str_defs)
  have c: "\<forall>r \<in> set qualityPatterns. \<not> patternTest r (qualityPartOf [])"
    by (simp add: str_defs)
  from parseChordName_null_cases[of "js ''xx''" False 15] a
  have "parseChordName (js ''xx'') = None \<and> generateAllVoicings False (js ''xx'') 15 = []"
    by blast
  moreover from parseChordName_null_cases[of "js ''C''" False 15] b c
  have "map_option quality (parseChordName (js ''C'')) = Some Major" by blast
  ultimately show ?thesis using a b by simp
qed

section \<open>Progression text\<close>




subsection \<open>The two splits\<close>
















subsection \<open>The tokens of a progression\<close>



section \<open>The single-voicing resolver\<close>

text \<open>
  Claim C4, evaluated on the source: for the root Bb the distance from E is 6 and the
  distance from A is 1, and \<open>findChordShape\<close> answers the E shape moved up 6 frets, not the
  A shape moved up 1: the source takes the E shape whenever the distance from E is at
  most 7 and never compares the two distances.
\<close>

theorem findChordShape_Bflat_takes_E_shape:
  "transposedFromE (js ''Bb'') = 6 \<and> transposedFromA (js ''Bb'') = 1
   \<and> findChordShape (js ''Bb'') Major
       = map_option (\<lambda>s. placed s 6) (map_of CHORD_SHAPES (js ''E_major''))
   \<and> map_option (\<lambda>s. map (\<lambda>p. (string p, fret p)) (shapeToPositions False s (js ''Bb'')))
        (findChordShape (js ''Bb'') Major)
       = Some [(6, 6), (5, 8), (4, 8), (3, 7), (2, 6), (1, 6)]"
proof -
  have d: "transposedFromE (js ''Bb'') = 6" "transposedFromA (js ''Bb'') = 1"
    by (simp_all add: transposedFromE_def transposedFromA_def getNoteIndex_def noteMap_def
          jsRem_def js_def)
  have f: "findChordShape (js ''Bb'') Major
             = map_option (\<lambda>s. placed s 6) (map_of CHORD_SHAPES (js ''E_major''))"
    unfolding findChordShape_def d
    by (simp add: js_def qualityToShape_def CHORD_SHAPES_def placed_def)
  have "map_option (\<lambda>s. map (\<lambda>p. (string p, fret p)) (shapeToPositions False s (js ''Bb'')))
          (findChordShape (js ''Bb'') Major)
        = Some [(6, 6), (5, 8), (4, 8), (3, 7), (2, 6), (1, 6)]"
    unfolding f
    by (simp add: CHORD_SHAPES_def js_def placed_def shapeToPositions_def upt_conv_Cons Let_def)
  with d f show ?thesis by simp
qed

section \<open>The quality used for the shape lookup\<close>

text \<open>
  Claim C3 as stated fails: the diminished quality, which \<open>Adim\<close> parses to, is looked up
  as minor, not major; and the minor sixth, which \<open>Am6\<close> parses to, is looked up as major,
  not minor.
\<close>

theorem shapeQuality_dim_counterexample:
  "parseChordName (js ''Adim'') = Some \<lparr>root = js ''A'', quality = Dim, bass = None\<rparr>
   \<and> shapeQualityOf Dim = Minor \<and> shapeQualityOf Dim \<noteq> Major
   \<and> parseChordName (js ''Am6'') = Some \<lparr>root = js ''A'', quality = Min6, bass = None\<rparr>
   \<and> shapeQualityOf Min6 = Major \<and> shapeQualityOf Min6 \<noteq> Minor"
  by (simp add: parse_examples shapeQualityOf_def qualityMap_def)

text \<open>
  Claim C3, amended: in \<open>generateAllVoicings\<close> the supported qualities major, minor, 7, m7
  and maj7 are looked up as themselves, and every other parsed quality is looked up as
  major or minor: the diminished quality as minor, and the augmented, the suspended and
  all remaining qualities, those with a minor third among them, as major. Every voicing of
  the output is built from the shape that its family has for that quality.
\<close>

theorem shapeQuality_mapping:
  fixes parsed :: chordSymbol
  shows
  "shapeQualityOf q =
     (if q \<in> {Major, Minor, Dom7, Min7, Maj7} then q else if q = Dim then Minor else Major)
   \<and> generateAllVoicings useFlats chord maxFret =
       (case parseChordName chord of
          None \<Rightarrow> []
        | Some parsed \<Rightarrow>
            sort_key avgFret
              (concat (map (familyVoicing useFlats chord (getNoteIndex (root parsed))
                              (shapeQualityOf (quality parsed)) maxFret) CAGED_SHAPES)))"
proof
  show "shapeQualityOf q =
     (if q \<in> {Major, Minor, Dom7, Min7, Maj7} then q else if q = Dim then Minor else Major)"
    by (cases q) (simp_all add: shapeQualityOf_def qualityMap_def)
  show "generateAllVoicings useFlats chord maxFret =
       (case parseChordName chord of
          None \<Rightarrow> []
        | Some parsed \<Rightarrow>
            sort_key avgFret
              (concat (map (familyVoicing useFlats chord (getNoteIndex (root parsed))
                              (shapeQualityOf (quality parsed)) maxFret) CAGED_SHAPES)))"
    by (simp add: generateAllVoicings_def split: option.splits)
qed

theorem shapeQuality_mapping_witness:
  "shapeQualityOf Dim = Minor \<and> shapeQualityOf Aug = Major \<and> shapeQualityOf Sus2 = Major
   \<and> shapeQualityOf Sus4 = Major \<and> shapeQualityOf Min6 = Major \<and> shapeQualityOf Min7 = Min7"
  using shapeQuality_mapping[of Dim False "[]" 0] shapeQuality_mapping[of Aug False "[]" 0]
    shapeQuality_mapping[of Sus2 False "[]" 0] shapeQuality_mapping[of Sus4 False "[]" 0]
    shapeQuality_mapping[of Min6 False "[]" 0] shapeQuality_mapping[of Min7 False "[]" 0]
  by simp

section \<open>The voicing generator: what the loop over the strings builds\<close>

lemma fold_placeString_positions:
  "placed_positions (fold (placeString uf r tr mf) fis st) =
     placed_positions st @ map (mkPosition uf r tr) (filter (fits tr mf) fis)"
  by (induction fis arbitrary: st)
     (auto simp: placeString_def mkPosition_def fits_def Let_def split: prod.splits)

lemma fold_placeString_valid:
  "validVoicing (fold (placeString uf r tr mf) fis st) \<longleftrightarrow>
     validVoicing st \<and> (\<forall>fi \<in> set fis. 0 \<le> fst fi \<longrightarrow> fst fi + tr \<le> mf)"
  by (induction fis arbitrary: st)
     (auto simp: placeString_def Let_def split: prod.splits)

lemma placeShape_positions:
  "placed_positions (placeShape uf r tr mf fs) =
     map (mkPosition uf r tr) (filter (fits tr mf) (zip fs [0..<length fs]))"
  by (simp add: placeShape_def fold_placeString_positions)

lemma fst_set_zip_upt: "fst ` set (zip fs [0..<length fs]) = set fs"
proof -
  have "map fst (zip fs [0..<length fs]) = fs" by (simp add: map_fst_zip)
  then have "set (map fst (zip fs [0..<length fs])) = set fs" by simp
  then show ?thesis by (simp only: set_map)
qed

lemma ball_zip_upt:
  "(\<forall>fi \<in> set (zip fs [0..<length fs]). P (fst fi)) \<longleftrightarrow> (\<forall>f \<in> set fs. P f)"
proof -
  have "(\<forall>fi \<in> set (zip fs [0..<length fs]). P (fst fi))
          \<longleftrightarrow> (\<forall>f \<in> fst ` set (zip fs [0..<length fs]). P f)"
    by auto
  then show ?thesis by (simp only: fst_set_zip_upt)
qed

lemma placeShape_valid:
  "validVoicing (placeShape uf r tr mf fs) \<longleftrightarrow> (\<forall>f \<in> set fs. 0 \<le> f \<longrightarrow> f + tr \<le> mf)"
  using ball_zip_upt[of fs "\<lambda>f. 0 \<le> f \<longrightarrow> f + tr \<le> mf"]
  by (simp add: placeShape_def fold_placeString_valid)

subsection \<open>Note names and pitch classes\<close>

lemma getNoteIndex_range: "-1 \<le> getNoteIndex s \<and> getNoteIndex s \<le> 11"
  by (simp add: getNoteIndex_def noteMap_def)

lemma jsRem_nonneg: "0 \<le> a \<Longrightarrow> jsRem a 12 = a mod 12"
  by (simp add: jsRem_def sgn_if)

lemma nat_jsRem_less: "nat (jsRem a 12) < 12"
proof (cases "0 \<le> a")
  case True
  then show ?thesis by (simp add: jsRem_nonneg)
next
  case False
  then have "jsRem a 12 \<le> 0" by (simp add: jsRem_def sgn_if)
  then show ?thesis by simp
qed

lemma note_roundtrip_list:
  "list_all (\<lambda>n. getNoteIndex (shownName uf (NOTE_NAMES ! n)) = int n)
     [0, 1, 2, 3, 4, 5, 6, 7, 8, 9, 10, 11]"
  by (cases uf)
     (simp_all add: shownName_def NOTE_NAMES_def getNoteIndex_def noteMap_def js_def flatMap_def)

lemma note_roundtrip:
  assumes "n < 12"
  shows "getNoteIndex (shownName uf (NOTE_NAMES ! n)) = int n"
proof -
  from assms have "n \<in> set [0, 1, 2, 3, 4, 5, 6, 7, 8, 9, 10, 11]" by (simp; arith)
  with note_roundtrip_list[of uf] show ?thesis
    unfolding list_all_iff by blast
qed

lemma getNoteAtPosition_shown:
  "getNoteAtPosition uf s f =
     map_option (\<lambda>opn. shownName uf (NOTE_NAMES ! nat (jsRem (opn + f) 12)))
       (map_of OPEN_STRING_NOTES s)"
  by (simp add: getNoteAtPosition_def shownName_def Let_def split: option.splits)

lemma noteIndexOf_any_position:
  "noteIndexOf (getNoteAtPosition uf s f) =
     (case map_of OPEN_STRING_NOTES s of
        None \<Rightarrow> -1 | Some opn \<Rightarrow> int (nat (jsRem (opn + f) 12)))"
  by (simp add: getNoteAtPosition_shown noteIndexOf_def note_roundtrip[OF nat_jsRem_less]
        split: option.splits)

lemma noteIndexOf_position:
  assumes "map_of OPEN_STRING_NOTES s = Some opn" "0 \<le> opn + f"
  shows "noteIndexOf (getNoteAtPosition uf s f) = jsRem (opn + f) 12"
  using assms by (simp add: noteIndexOf_any_position jsRem_nonneg)

lemma placeString_flats: "placeString uf r tr mf = placeString False r tr mf"
  by (intro ext) (simp add: placeString_def Let_def noteIndexOf_any_position split: prod.splits)

lemma placeShape_flats: "placeShape uf r tr mf fs = placeShape False r tr mf fs"
  unfolding placeShape_def by (subst placeString_flats) (rule refl)

lemma familyVoicing_flats:
  "familyVoicing uf chord r q mf entry = familyVoicing False chord r q mf entry"
  unfolding familyVoicing_def by (subst placeShape_flats) (rule refl)

lemma generateAllVoicings_flats:
  "generateAllVoicings uf chord mf = generateAllVoicings False chord mf"
  unfolding generateAllVoicings_def by (subst familyVoicing_flats[abs_def]) (rule refl)

lemma generateAllVoicings_Some:
  assumes "parseChordName chord = Some parsed"
  shows "generateAllVoicings uf chord mf =
           sort_key avgFret
             (concat (map (familyVoicing uf chord (getNoteIndex (root parsed))
                             (shapeQualityOf (quality parsed)) mf) CAGED_SHAPES))"
  using assms by (simp add: generateAllVoicings_def)

lemma open_string_lookup:
  assumes "i < 6"
  shows "\<exists>opn. map_of OPEN_STRING_NOTES (6 - int i) = Some opn \<and> 0 \<le> opn"
proof -
  from assms have "i \<in> set [0, 1, 2, 3, 4, 5]" by (simp; arith)
  then show ?thesis by (auto simp: OPEN_STRING_NOTES_def)
qed

subsection \<open>The shapes of the table\<close>

lemma cagedTable_facts:
  assumes "map_of (cagedTable k) q = Some shape"
  shows "length (cagedShape.strings shape) = 6" and "name shape = familyName k"
  using assms by (cases k; auto split: if_splits)+

lemma familyName_inj: "familyName k = familyName k' \<Longrightarrow> k = k'"
  by (cases k; cases k'; simp add: js_def)

lemma shapeTranspose_nonneg: "0 \<le> shapeTranspose (getNoteIndex s) k"
proof -
  have "0 \<le> baseNoteIndex k \<and> baseNoteIndex k \<le> 9"
    by (cases k) (simp_all add: getNoteIndex_def noteMap_def js_def)
  with getNoteIndex_range[of s] have "0 \<le> getNoteIndex s - baseNoteIndex k + 12" by arith
  then show ?thesis by (simp add: shapeTranspose_def jsRem_nonneg)
qed

lemma sounded_index:
  assumes "fi \<in> set (sounded strs)"
  shows "0 \<le> fst fi" and "fst fi \<in> set strs" and "snd fi < length strs"
  using assms by (auto simp: sounded_def set_zip)

lemma sounded_sorted: "sorted_wrt (\<lambda>a b. snd a < snd b) (sounded strs)"
proof -
  have "map snd (zip strs [0..<length strs]) = [0..<length strs]"
    by (simp add: map_snd_zip)
  then have "sorted_wrt (<) (map snd (zip strs [0..<length strs]))"
    by simp
  then have "sorted_wrt (\<lambda>a b. snd a < snd b) (zip strs [0..<length strs])"
    by (simp only: sorted_wrt_map)
  then show ?thesis
    unfolding sounded_def by (rule sorted_wrt_filter)
qed

lemma length_sounded: "length (sounded strs) \<le> length strs"
proof -
  have "length (sounded strs) \<le> length (zip strs [0..<length strs])"
    unfolding sounded_def by (rule length_filter_le)
  then show ?thesis by simp
qed

subsection \<open>Every voicing of the output is built from a shape\<close>

lemma familyVoicing_builtFrom:
  assumes "v \<in> set (familyVoicing uf chord (getNoteIndex (root parsed))
                       (shapeQualityOf (quality parsed)) mf (k, cagedTable k))"
  shows "\<exists>shape. builtFrom uf mf parsed k shape v"
proof -
  let ?r = "getNoteIndex (root parsed)"
  let ?q = "shapeQualityOf (quality parsed)"
  from assms obtain shape where sh: "map_of (cagedTable k) ?q = Some shape"
    by (cases "map_of (cagedTable k) ?q") (auto simp: familyVoicing_def simp del: cagedTable.simps)
  let ?tr = "shapeTranspose ?r k"
  let ?strs = "cagedShape.strings shape"
  let ?st = "placeShape uf ?r ?tr mf ?strs"
  let ?ps = "placed_positions ?st"
  from assms sh have valid: "validVoicing ?st" and len: "3 \<le> length ?ps"
    and v: "v = \<lparr>chordName = chord, shapeName = name shape, positions = ?ps,
               baseFret = (case minFret ?st of None \<Rightarrow> 0 | Some m \<Rightarrow> m),
               avgFret = of_int (sum_list (map fret ?ps)) / of_int (int (length ?ps)),
               fretSpan = maxFretUsed ?st - (case minFret ?st of None \<Rightarrow> 0 | Some m \<Rightarrow> m)\<rparr>"
    by (auto simp: familyVoicing_def Let_def simp del: cagedTable.simps split: if_splits)
  from valid have fit: "\<forall>f \<in> set ?strs. 0 \<le> f \<longrightarrow> f + ?tr \<le> mf"
    by (simp add: placeShape_valid)
  then have "\<forall>fi \<in> set (zip ?strs [0..<length ?strs]). fits ?tr mf fi = (0 \<le> fst fi)"
    using ball_zip_upt[of ?strs "\<lambda>f. 0 \<le> f \<longrightarrow> f + ?tr \<le> mf"] by (auto simp: fits_def)
  then have "filter (fits ?tr mf) (zip ?strs [0..<length ?strs]) = sounded ?strs"
    unfolding sounded_def by (intro filter_cong) auto
  then have pos: "?ps = map (mkPosition uf ?r ?tr) (sounded ?strs)"
    by (simp add: placeShape_positions)
  have p1: "positions v = ?ps" and p2: "shapeName v = name shape"
    and p3: "avgFret v = of_int (sum_list (map fret ?ps)) / of_int (int (length ?ps))"
    by (simp_all add: v)
  have "builtFrom uf mf parsed k shape v"
    unfolding builtFrom_def p1 p2 p3
    using sh fit pos len cagedTable_facts(2)[OF sh] by (intro conjI) simp_all
  then show ?thesis ..
qed

lemma in_generateAllVoicings:
  assumes "v \<in> set (generateAllVoicings uf chord mf)"
  shows "\<exists>parsed k. parseChordName chord = Some parsed
           \<and> v \<in> set (familyVoicing uf chord (getNoteIndex (root parsed))
                          (shapeQualityOf (quality parsed)) mf (k, cagedTable k))"
proof (cases "parseChordName chord")
  case None
  with assms show ?thesis by (simp add: generateAllVoicings_def)
next
  case (Some parsed)
  with assms show ?thesis
    by (auto simp: generateAllVoicings_def CAGED_SHAPES_def Let_def simp del: cagedTable.simps)
qed

lemma voicing_builtFrom:
  assumes "v \<in> set (generateAllVoicings uf chord mf)"
  shows "\<exists>parsed k shape. parseChordName chord = Some parsed \<and> builtFrom uf mf parsed k shape v"
proof -
  from in_generateAllVoicings[OF assms] obtain parsed k where
    p: "parseChordName chord = Some parsed" and
    v: "v \<in> set (familyVoicing uf chord (getNoteIndex (root parsed))
                   (shapeQualityOf (quality parsed)) mf (k, cagedTable k))"
    by blast
  from familyVoicing_builtFrom[OF v] p show ?thesis by blast
qed

lemma builtFrom_position:
  assumes "builtFrom uf mf parsed k shape v" "p \<in> set (positions v)"
  shows "\<exists>f i. p = mkPosition uf (getNoteIndex (root parsed))
                     (shapeTranspose (getNoteIndex (root parsed)) k) (f, i)
               \<and> 0 \<le> f \<and> i < 6 \<and> f + shapeTranspose (getNoteIndex (root parsed)) k \<le> mf"
proof -
  let ?strs = "cagedShape.strings shape"
  let ?tr = "shapeTranspose (getNoteIndex (root parsed)) k"
  from assms(1)
  have pos: "positions v = map (mkPosition uf (getNoteIndex (root parsed)) ?tr) (sounded ?strs)"
    and sh: "map_of (cagedTable k) (shapeQualityOf (quality parsed)) = Some shape"
    and fit: "\<forall>f \<in> set ?strs. 0 \<le> f \<longrightarrow> f + ?tr \<le> mf"
    unfolding builtFrom_def by blast+
  from assms(2) obtain fi where fi: "fi \<in> set (sounded ?strs)"
    and p: "p = mkPosition uf (getNoteIndex (root parsed)) ?tr fi"
    unfolding pos by auto
  obtain f i where fi_eq: "fi = (f, i)" by (cases fi)
  note idx = sounded_index[OF fi]
  from cagedTable_facts(1)[OF sh] idx(3) have "i < 6" by (simp add: fi_eq)
  moreover from fit idx(1,2) have "f + ?tr \<le> mf" by (simp add: fi_eq)
  moreover from idx(1) have "0 \<le> f" by (simp add: fi_eq)
  ultimately show ?thesis using p fi_eq by blast
qed

subsection \<open>One concrete run\<close>

lemma generateAllVoicings_Am_4: "generateAllVoicings False (js ''Am'') 4 = [Am_open]"
  unfolding generateAllVoicings_Some[OF parse_examples(1)]
  by (simp add: getNoteIndex_def noteMap_def
        shapeQualityOf_def qualityMap_def CAGED_SHAPES_def familyVoicing_def shapeTranspose_def
        jsRem_def placeShape_def placeString_def upt_conv_Cons getNoteAtPosition_def
        OPEN_STRING_NOTES_def NOTE_NAMES_def noteIndexOf_def Let_def Am_open_def js_def)

section \<open>The voicing generator: positions\<close>

text \<open>
  Claim C6: every voicing that \<open>generateAllVoicings\<close> returns has at least 3 positions,
  and each of its positions has a fret from 0 to \<open>maxFret\<close> and a string from 1 to 6;
  a shape of which some sounded string, transposed, lies beyond \<open>maxFret\<close> gives no
  voicing of the output.
\<close>

theorem generateAllVoicings_positions_in_range:
  fixes parsed :: chordSymbol
  shows
  "(v \<in> set (generateAllVoicings useFlats chord maxFret)
      \<longrightarrow> 3 \<le> length (positions v)
          \<and> (\<forall>p \<in> set (positions v).
                0 \<le> fret p \<and> fret p \<le> maxFret \<and> 1 \<le> string p \<and> string p \<le> 6))
   \<and> (parseChordName chord = Some parsed
        \<and> map_of (cagedTable k) (shapeQualityOf (quality parsed)) = Some shape
        \<and> f \<in> set (cagedShape.strings shape) \<and> 0 \<le> f
        \<and> maxFret < f + shapeTranspose (getNoteIndex (root parsed)) k
      \<longrightarrow> (\<forall>w \<in> set (generateAllVoicings useFlats chord maxFret). shapeName w \<noteq> name shape))"
proof (rule conjI)
  show "v \<in> set (generateAllVoicings useFlats chord maxFret)
      \<longrightarrow> 3 \<le> length (positions v)
          \<and> (\<forall>p \<in> set (positions v).
                0 \<le> fret p \<and> fret p \<le> maxFret \<and> 1 \<le> string p \<and> string p \<le> 6)"
  proof (rule impI)
    assume a: "v \<in> set (generateAllVoicings useFlats chord maxFret)"
    from voicing_builtFrom[OF a] obtain parsed' k' shape' where
      b: "builtFrom useFlats maxFret parsed' k' shape' v" by blast
    have "\<forall>p \<in> set (positions v).
            0 \<le> fret p \<and> fret p \<le> maxFret \<and> 1 \<le> string p \<and> string p \<le> 6"
    proof
      fix p
      assume "p \<in> set (positions v)"
      from builtFrom_position[OF b this] obtain g i where
        p: "p = mkPosition useFlats (getNoteIndex (root parsed'))
                         (shapeTranspose (getNoteIndex (root parsed')) k') (g, i)"
        and g: "0 \<le> g" "i < 6" "g + shapeTranspose (getNoteIndex (root parsed')) k' \<le> maxFret"
        by blast
      from g shapeTranspose_nonneg[of "root parsed'" k']
      show "0 \<le> fret p \<and> fret p \<le> maxFret \<and> 1 \<le> string p \<and> string p \<le> 6"
        by (simp add: p mkPosition_def)
    qed
    moreover from b have "3 \<le> length (positions v)" unfolding builtFrom_def by blast
    ultimately show "3 \<le> length (positions v)
          \<and> (\<forall>p \<in> set (positions v).
                0 \<le> fret p \<and> fret p \<le> maxFret \<and> 1 \<le> string p \<and> string p \<le> 6)"
      by simp
  qed
  show "parseChordName chord = Some parsed
        \<and> map_of (cagedTable k) (shapeQualityOf (quality parsed)) = Some shape
        \<and> f \<in> set (cagedShape.strings shape) \<and> 0 \<le> f
        \<and> maxFret < f + shapeTranspose (getNoteIndex (root parsed)) k
      \<longrightarrow> (\<forall>w \<in> set (generateAllVoicings useFlats chord maxFret). shapeName w \<noteq> name shape)"
  proof (intro impI ballI)
    fix w
    assume h: "parseChordName chord = Some parsed
          \<and> map_of (cagedTable k) (shapeQualityOf (quality parsed)) = Some shape
          \<and> f \<in> set (cagedShape.strings shape) \<and> 0 \<le> f
          \<and> maxFret < f + shapeTranspose (getNoteIndex (root parsed)) k"
      and w: "w \<in> set (generateAllVoicings useFlats chord maxFret)"
    show "shapeName w \<noteq> name shape"
    proof
      assume n: "shapeName w = name shape"
      from voicing_builtFrom[OF w] h obtain k' shape' where
        b: "builtFrom useFlats maxFret parsed k' shape' w" by auto
      from b have nk: "shapeName w = familyName k'" unfolding builtFrom_def by blast
      from h have hs: "map_of (cagedTable k) (shapeQualityOf (quality parsed)) = Some shape"
        by blast
      then have "name shape = familyName k" by (rule cagedTable_facts(2))
      with n nk have "k' = k" by (simp add: familyName_inj)
      moreover from b have "map_of (cagedTable k') (shapeQualityOf (quality parsed)) = Some shape'"
        unfolding builtFrom_def by blast
      ultimately have "shape' = shape" using hs by simp
      with b \<open>k' = k\<close>
      have "\<forall>f \<in> set (cagedShape.strings shape).
              0 \<le> f \<longrightarrow> f + shapeTranspose (getNoteIndex (root parsed)) k \<le> maxFret"
        unfolding builtFrom_def by blast
      with h show False by auto
    qed
  qed
qed

theorem generateAllVoicings_positions_in_range_witness:
  "Am_open \<in> set (generateAllVoicings False (js ''Am'') 4)
   \<and> 3 \<le> length (positions Am_open)
   \<and> list_all (\<lambda>p. 0 \<le> fret p \<and> fret p \<le> 4 \<and> 1 \<le> string p \<and> string p \<le> 6)
       (positions Am_open)
   \<and> parseChordName (js ''Am'') = Some \<lparr>root = js ''A'', quality = Minor, bass = None\<rparr>
   \<and> map_of (cagedTable G_shape) Minor
       = Some \<lparr>strings = [3, 1, 0, 0, 3, 3], rootString = 6, rootFret = 3, name = js ''G-shape''\<rparr>
   \<and> 4 < 3 + shapeTranspose (getNoteIndex (js ''A'')) G_shape
   \<and> shapeName Am_open \<noteq> js ''G-shape''"
proof -
  let ?parsed = "\<lparr>root = js ''A'', quality = Minor, bass = None\<rparr>"
  let ?g = "\<lparr>strings = [3, 1, 0, 0, 3, 3], rootString = 6, rootFret = 3, name = js ''G-shape''\<rparr>"
  have m: "Am_open \<in> set (generateAllVoicings False (js ''Am'') 4)"
    by (simp add: generateAllVoicings_Am_4)
  have t: "shapeTranspose (getNoteIndex (js ''A'')) G_shape = 2"
    by (simp add: shapeTranspose_def getNoteIndex_def noteMap_def js_def jsRem_def)
  have s: "map_of (cagedTable G_shape) (shapeQualityOf (quality ?parsed)) = Some ?g"
    by (simp add: shapeQualityOf_def qualityMap_def)
  have q: "map_of (cagedTable G_shape) Minor = Some ?g" by simp
  from generateAllVoicings_positions_in_range
         [of Am_open False "js ''Am''" 4 ?parsed G_shape ?g 3] m
  have r1: "3 \<le> length (positions Am_open)
           \<and> (\<forall>p \<in> set (positions Am_open).
                 0 \<le> fret p \<and> fret p \<le> 4 \<and> 1 \<le> string p \<and> string p \<le> 6)"
    by blast
  then have r1a: "3 \<le> length (positions Am_open)" by blast
  from r1 have r1b: "list_all (\<lambda>p. 0 \<le> fret p \<and> fret p \<le> 4 \<and> 1 \<le> string p \<and> string p \<le> 6)
                     (positions Am_open)"
    unfolding list_all_iff by blast
  from generateAllVoicings_positions_in_range
         [of Am_open False "js ''Am''" 4 ?parsed G_shape ?g 3] parse_examples(1) s t m
  have r2: "shapeName Am_open \<noteq> js ''G-shape''" by simp
  from m r1a r1b r2 parse_examples(1) q t show ?thesis by simp
qed

text \<open>
  For a root that the note table holds, the flag of a position says whether the pitch
  class at its string and fret is the pitch class of the root; and the output does not
  depend on the display of flats or sharps.
\<close>

lemma pitchClassOfRoot_noteMap:
  "list_all (\<lambda>entry. pitchClassOfRoot (fst entry) = snd entry) noteMap"
  by (simp add: noteMap_def pitchClassOfRoot_def letterPitch_def js_def)

lemma getNoteIndex_is_pitch_class:
  assumes "getNoteIndex r \<noteq> -1"
  shows "getNoteIndex r = pitchClassOfRoot r"
proof -
  from assms obtain i where m: "map_of noteMap r = Some i"
    by (cases "map_of noteMap r") (auto simp: getNoteIndex_def)
  then have "(r, i) \<in> set noteMap" by (rule map_of_SomeD)
  with pitchClassOfRoot_noteMap have "pitchClassOfRoot r = i"
    unfolding list_all_iff by fastforce
  with m show ?thesis by (simp add: getNoteIndex_def)
qed

lemma isRoot_is_table_index:
  assumes "v \<in> set (generateAllVoicings useFlats chord maxFret)" "p \<in> set (positions v)"
  shows "\<exists>parsed opn. parseChordName chord = Some parsed
            \<and> map_of OPEN_STRING_NOTES (string p) = Some opn
            \<and> (isRoot p \<longleftrightarrow> jsRem (opn + fret p) 12 = getNoteIndex (root parsed))"
proof -
  from voicing_builtFrom[OF assms(1)] obtain parsed k shape where
    pc: "parseChordName chord = Some parsed" and
    b: "builtFrom useFlats maxFret parsed k shape v" by blast
  let ?r = "getNoteIndex (root parsed)"
  let ?tr = "shapeTranspose ?r k"
  from builtFrom_position[OF b assms(2)] obtain f i where
    p: "p = mkPosition useFlats ?r ?tr (f, i)" and f: "0 \<le> f" "i < 6"
    by blast
  from open_string_lookup[OF f(2)] obtain opn where
    o: "map_of OPEN_STRING_NOTES (6 - int i) = Some opn" and o0: "0 \<le> opn" by blast
  from f(1) shapeTranspose_nonneg[of "root parsed" k] o0 have "0 \<le> opn + (f + ?tr)" by simp
  from noteIndexOf_position[OF o this, of useFlats]
  have "isRoot p \<longleftrightarrow> jsRem (opn + fret p) 12 = ?r"
    by (simp add: p mkPosition_def)
  moreover from o have "map_of OPEN_STRING_NOTES (string p) = Some opn"
    by (simp add: p mkPosition_def)
  ultimately show ?thesis using pc by blast
qed

lemma isRoot_of_known_root:
  assumes "v \<in> set (generateAllVoicings useFlats chord maxFret)" "p \<in> set (positions v)"
    and "parseChordName chord = Some parsed" "getNoteIndex (root parsed) \<noteq> -1"
    and "map_of OPEN_STRING_NOTES (string p) = Some opn"
  shows "isRoot p \<longleftrightarrow> jsRem (opn + fret p) 12 = pitchClassOfRoot (root parsed)"
  using isRoot_is_table_index[OF assms(1,2)] assms(3,5) getNoteIndex_is_pitch_class[OF assms(4)]
  by auto

lemma familyVoicing_in_output:
  assumes "parseChordName chord = Some parsed"
    and "v \<in> set (familyVoicing uf chord (getNoteIndex (root parsed))
                     (shapeQualityOf (quality parsed)) mf (k, cagedTable k))"
  shows "v \<in> set (generateAllVoicings uf chord mf)"
  using assms(2) unfolding generateAllVoicings_Some[OF assms(1)] CAGED_SHAPES_def
  by (cases k) (auto simp del: cagedTable.simps)

lemma familyVoicing_Cb_A_shape:
  "familyVoicing False (js ''Cb'') (- 1) Major 15 (A_shape, cagedTable A_shape) = [Cb_A_shape]"
  by (simp add: getNoteIndex_def noteMap_def familyVoicing_def shapeTranspose_def
        jsRem_def placeShape_def placeString_def upt_conv_Cons getNoteAtPosition_def
        OPEN_STRING_NOTES_def NOTE_NAMES_def noteIndexOf_def Let_def Cb_A_shape_def js_def)

text \<open>
  Claim C9: the flag \<open>isRoot\<close> of a position is to say whether the pitch class at its
  string and fret is the pitch class of the parsed root. For the chord name Cb it does
  not: the root parses as Cb, whose pitch class is 11, the note table has no entry for
  that spelling, and the generator goes on with the index -1; it returns the A-shape at
  fret 2, whose position on string 5 at fret 2 sounds pitch class 11 and is not flagged.
\<close>

theorem isRoot_unset_for_Cb:
  "parseChordName (js ''Cb'') = Some \<lparr>root = js ''Cb'', quality = Major, bass = None\<rparr>
   \<and> pitchClassOfRoot (js ''Cb'') = 11
   \<and> getNoteIndex (js ''Cb'') = - 1
   \<and> Cb_A_shape \<in> set (generateAllVoicings False (js ''Cb'') 15)
   \<and> \<lparr>string = 5, fret = 2, isRoot = False\<rparr> \<in> set (positions Cb_A_shape)
   \<and> map_of OPEN_STRING_NOTES 5 = Some 9
   \<and> jsRem (9 + 2) 12 = pitchClassOfRoot (js ''Cb'')
   \<and> list_all (\<lambda>p. \<not> isRoot p) (positions Cb_A_shape)"
proof -
  have p: "parseChordName (js ''Cb'')
             = Some \<lparr>root = js ''Cb'', quality = Major, bass = None\<rparr>"
    by (simp add: parseChordName_def str_defs)
  have g: "getNoteIndex (js ''Cb'') = - 1"
    by (simp add: getNoteIndex_def noteMap_def js_def)
  have "Cb_A_shape \<in> set (familyVoicing False (js ''Cb'') (- 1) Major 15
                              (A_shape, cagedTable A_shape))"
    unfolding familyVoicing_Cb_A_shape by simp
  then have "Cb_A_shape \<in> set (familyVoicing False (js ''Cb'')
                 (getNoteIndex (root \<lparr>root = js ''Cb'', quality = Major, bass = None\<rparr>))
                 (shapeQualityOf (quality \<lparr>root = js ''Cb'', quality = Major, bass = None\<rparr>))
                 15 (A_shape, cagedTable A_shape))"
    by (simp add: g shapeQualityOf_def qualityMap_def del: cagedTable.simps)
  with p have m: "Cb_A_shape \<in> set (generateAllVoicings False (js ''Cb'') 15)"
    by (rule familyVoicing_in_output)
  have c: "pitchClassOfRoot (js ''Cb'') = 11"
    by (simp add: pitchClassOfRoot_def letterPitch_def js_def)
  have "\<lparr>string = 5, fret = 2, isRoot = False\<rparr> \<in> set (positions Cb_A_shape)"
    and "list_all (\<lambda>p. \<not> isRoot p) (positions Cb_A_shape)"
    by (simp_all add: Cb_A_shape_def)
  moreover have "map_of OPEN_STRING_NOTES 5 = Some 9" by (simp add: OPEN_STRING_NOTES_def)
  moreover have "jsRem (9 + 2) 12 = pitchClassOfRoot (js ''Cb'')"
    by (simp add: c jsRem_def)
  ultimately show ?thesis using p g m c by simp
qed

text \<open>
  Claim C10: in every voicing that \<open>generateAllVoicings\<close> returns, the string numbers of
  the positions decrease strictly along the list, from the side of string 6 toward string
  1; so no string occurs twice and a voicing has at most 6 positions.
\<close>

lemma decreasing_distinct: "sorted_wrt (>) (xs :: int list) \<Longrightarrow> distinct xs"
  by (induction xs) auto

theorem positions_strings_decrease:
  assumes "v \<in> set (generateAllVoicings useFlats chord maxFret)"
  shows "sorted_wrt (>) (map string (positions v)) \<and> distinct (map string (positions v))
         \<and> length (positions v) \<le> 6"
proof -
  from voicing_builtFrom[OF assms(1)] obtain parsed k shape where
    b: "builtFrom useFlats maxFret parsed k shape v" by blast
  let ?snd = "sounded (cagedShape.strings shape)"
  from b have pos: "positions v = map (mkPosition useFlats (getNoteIndex (root parsed))
                           (shapeTranspose (getNoteIndex (root parsed)) k)) ?snd"
    unfolding builtFrom_def by blast
  have m: "map string (positions v) = map (\<lambda>fi. 6 - int (snd fi)) ?snd"
    by (simp add: pos mkPosition_def comp_def)
  have "sorted_wrt (\<lambda>a b. 6 - int (snd a) > 6 - int (snd b)) ?snd"
    by (rule sorted_wrt_mono_rel[OF _ sounded_sorted]) simp
  then have dec: "sorted_wrt (>) (map string (positions v))"
    by (simp only: m sorted_wrt_map)
  then have "distinct (map string (positions v))"
    by (rule decreasing_distinct)
  moreover from b have "map_of (cagedTable k) (shapeQualityOf (quality parsed)) = Some shape"
    unfolding builtFrom_def by blast
  then have "length (cagedShape.strings shape) = 6" by (rule cagedTable_facts(1))
  with length_sounded[of "cagedShape.strings shape"]
  have "length (positions v) \<le> 6" by (simp add: pos)
  ultimately show ?thesis using dec by simp
qed

theorem positions_strings_decrease_witness:
  "Am_open \<in> set (generateAllVoicings False (js ''Am'') 4)
   \<and> map string (positions Am_open) = [5, 4, 3, 2, 1]
   \<and> sorted_wrt (>) (map string (positions Am_open))
   \<and> distinct (map string (positions Am_open))
   \<and> length (positions Am_open) \<le> 6"
proof -
  have m: "Am_open \<in> set (generateAllVoicings False (js ''Am'') 4)"
    by (simp add: generateAllVoicings_Am_4)
  have s: "map string (positions Am_open) = [5, 4, 3, 2, 1]" by (simp add: Am_open_def)
  from positions_strings_decrease[OF m] m s show ?thesis by simp
qed

section \<open>The voicing generator: order of the output\<close>

lemma map_fst_filter: "map fst (filter (\<lambda>fi. P (fst fi)) xs) = filter P (map fst xs)"
  by (induction xs) auto

lemma map_fst_sounded: "map fst (sounded strs) = filter (\<lambda>f. 0 \<le> f) strs"
proof -
  have "map fst (sounded strs) = filter (\<lambda>f. 0 \<le> f) (map fst (zip strs [0..<length strs]))"
    unfolding sounded_def by (rule map_fst_filter)
  then show ?thesis by (simp add: map_fst_zip)
qed

lemma builtFrom_avg:
  assumes "builtFrom uf mf parsed k shape v"
  shows "avgFret v = avgOf (cagedShape.strings shape) (shapeTranspose (getNoteIndex (root parsed)) k)"
proof -
  let ?tr = "shapeTranspose (getNoteIndex (root parsed)) k"
  let ?strs = "cagedShape.strings shape"
  from assms
  have pos: "positions v = map (mkPosition uf (getNoteIndex (root parsed)) ?tr) (sounded ?strs)"
    and avg: "avgFret v = of_int (sum_list (map fret (positions v)))
                            / of_int (int (length (positions v)))"
    unfolding builtFrom_def by blast+
  have "map fret (positions v) = map (\<lambda>f. f + ?tr) (map fst (sounded ?strs))"
    by (simp add: pos mkPosition_def comp_def)
  then have f: "map fret (positions v) = map (\<lambda>f. f + ?tr) (filter (\<lambda>f. 0 \<le> f) ?strs)"
    by (simp only: map_fst_sounded)
  have "length (positions v) = length (map fret (positions v))" by simp
  also have "\<dots> = length (filter (\<lambda>f. 0 \<le> f) ?strs)" by (simp only: f length_map)
  finally have l: "length (positions v) = length (filter (\<lambda>f. 0 \<le> f) ?strs)" .
  show ?thesis unfolding avg avgOf_def f l ..
qed

lemma shapeTranspose_mod:
  assumes "-1 \<le> r"
  shows "shapeTranspose r E_shape = (r + 8) mod 12" "shapeTranspose r A_shape = (r + 3) mod 12"
    "shapeTranspose r D_shape = (r + 10) mod 12" "shapeTranspose r C_shape = (r + 12) mod 12"
    "shapeTranspose r G_shape = (r + 5) mod 12"
  using assms
  by (simp_all add: shapeTranspose_def jsRem_nonneg getNoteIndex_def noteMap_def js_def
        add.commute)

text \<open>
  For each root index and each quality of the table, the five families have five
  different mean frets.
\<close>

lemma familyAvg_distinct_table:
  "list_all (\<lambda>r. list_all (\<lambda>q.
       distinct (map (familyAvg q r) [E_shape, A_shape, D_shape, C_shape, G_shape]))
     [Major, Minor, Dom7, Min7, Maj7])
   [-1, 0, 1, 2, 3, 4, 5, 6, 7, 8, 9, 10, 11]"
  by (simp add: familyAvg_def avgOf_def shapeTranspose_mod)

lemma never_tie:
  assumes s: "map_of (cagedTable k) q = Some s" and s': "map_of (cagedTable k') q = Some s'"
    and ne: "k \<noteq> k'" and r: "-1 \<le> r" "r \<le> 11"
  shows "avgOf (cagedShape.strings s) (shapeTranspose r k)
           \<noteq> avgOf (cagedShape.strings s') (shapeTranspose r k')"
proof -
  let ?fams = "[E_shape, A_shape, D_shape, C_shape, G_shape]"
  from s have q: "q \<in> set [Major, Minor, Dom7, Min7, Maj7]"
    by (cases k) (auto split: if_splits)
  from r have "r \<in> set [-1, 0, 1, 2, 3, 4, 5, 6, 7, 8, 9, 10, 11]" by (simp; arith)
  with q familyAvg_distinct_table have "distinct (map (familyAvg q r) ?fams)"
    unfolding list_all_iff by blast
  then have "inj_on (familyAvg q r) (set ?fams)" by (simp only: distinct_map)
  moreover have "x \<in> set ?fams" for x by (cases x) simp_all
  then have "k \<in> set ?fams" "k' \<in> set ?fams" by blast+
  ultimately have "familyAvg q r k \<noteq> familyAvg q r k'" using ne by (auto dest: inj_onD)
  then show ?thesis by (simp add: familyAvg_def s s')
qed

lemma length_familyVoicing: "length (familyVoicing uf chord r q mf entry) \<le> 1"
  by (cases entry) (simp add: familyVoicing_def Let_def split: option.splits)

lemma familyVoicing_never_tie:
  fixes parsed :: chordSymbol
  assumes "u \<in> set (familyVoicing uf chord (getNoteIndex (root parsed))
                       (shapeQualityOf (quality parsed)) mf (k, cagedTable k))"
    and "v \<in> set (familyVoicing uf chord (getNoteIndex (root parsed))
                       (shapeQualityOf (quality parsed)) mf (k', cagedTable k'))"
    and "k \<noteq> k'"
  shows "avgFret u \<noteq> avgFret v"
proof -
  from familyVoicing_builtFrom[OF assms(1)] obtain s where bu: "builtFrom uf mf parsed k s u" ..
  from familyVoicing_builtFrom[OF assms(2)] obtain s' where bv: "builtFrom uf mf parsed k' s' v" ..
  from bu have su: "map_of (cagedTable k) (shapeQualityOf (quality parsed)) = Some s"
    unfolding builtFrom_def by blast
  from bv have sv: "map_of (cagedTable k') (shapeQualityOf (quality parsed)) = Some s'"
    unfolding builtFrom_def by blast
  from getNoteIndex_range[of "root parsed"]
  have "-1 \<le> getNoteIndex (root parsed)" "getNoteIndex (root parsed) \<le> 11" by simp_all
  from never_tie[OF su sv assms(3) this] show ?thesis
    by (simp only: builtFrom_avg[OF bu] builtFrom_avg[OF bv] not_False_eq_True)
qed

lemma sorted_wrt_neq_distinct: "sorted_wrt (\<lambda>u v. f u \<noteq> f v) xs \<longleftrightarrow> distinct (map f xs)"
  by (induction xs) auto

lemma sorted_wrt_five:
  assumes "sorted_wrt P x1" "sorted_wrt P x2" "sorted_wrt P x3" "sorted_wrt P x4" "sorted_wrt P x5"
    and "\<And>u v. u \<in> set x1 \<Longrightarrow> v \<in> set x2 \<Longrightarrow> P u v"
    and "\<And>u v. u \<in> set x1 \<Longrightarrow> v \<in> set x3 \<Longrightarrow> P u v"
    and "\<And>u v. u \<in> set x1 \<Longrightarrow> v \<in> set x4 \<Longrightarrow> P u v"
    and "\<And>u v. u \<in> set x1 \<Longrightarrow> v \<in> set x5 \<Longrightarrow> P u v"
    and "\<And>u v. u \<in> set x2 \<Longrightarrow> v \<in> set x3 \<Longrightarrow> P u v"
    and "\<And>u v. u \<in> set x2 \<Longrightarrow> v \<in> set x4 \<Longrightarrow> P u v"
    and "\<And>u v. u \<in> set x2 \<Longrightarrow> v \<in> set x5 \<Longrightarrow> P u v"
    and "\<And>u v. u \<in> set x3 \<Longrightarrow> v \<in> set x4 \<Longrightarrow> P u v"
    and "\<And>u v. u \<in> set x3 \<Longrightarrow> v \<in> set x5 \<Longrightarrow> P u v"
    and "\<And>u v. u \<in> set x4 \<Longrightarrow> v \<in> set x5 \<Longrightarrow> P u v"
  shows "sorted_wrt P (x1 @ x2 @ x3 @ x4 @ x5)"
  using assms by (auto simp: sorted_wrt_append)

lemma unsorted_distinct:
  fixes parsed :: chordSymbol
  shows "distinct (map avgFret
     (concat (map (familyVoicing uf chord (getNoteIndex (root parsed))
                          (shapeQualityOf (quality parsed)) mf) CAGED_SHAPES)))"
proof -
  let ?fv = "\<lambda>k. familyVoicing uf chord (getNoteIndex (root parsed))
                          (shapeQualityOf (quality parsed)) mf (k, cagedTable k)"
  let ?P = "\<lambda>u v. avgFret u \<noteq> avgFret v"
  have one: "sorted_wrt ?P (?fv k)" for k
    by (rule sorted_wrt01) (rule length_familyVoicing)
  have "sorted_wrt ?P (?fv E_shape @ ?fv A_shape @ ?fv D_shape @ ?fv C_shape @ ?fv G_shape)"
    by (rule sorted_wrt_five) (rule one | (erule (1) familyVoicing_never_tie, simp))+
  then have "sorted_wrt ?P (concat (map (familyVoicing uf chord (getNoteIndex (root parsed))
                          (shapeQualityOf (quality parsed)) mf) CAGED_SHAPES))"
    by (simp add: CAGED_SHAPES_def del: cagedTable.simps)
  then show ?thesis by (simp only: sorted_wrt_neq_distinct)
qed

text \<open>
  Claim C5: the list that \<open>generateAllVoicings\<close> returns is in ascending order of
  \<open>avgFret\<close>, with voicings of equal \<open>avgFret\<close> in the order E, A, D, G, C of their
  families. The second conjunct adds that no two voicings of one output have the same
  \<open>avgFret\<close>, so that the order is strict.
\<close>

theorem generateAllVoicings_sorted:
  "sorted_wrt byAvgThenOrder (generateAllVoicings useFlats chord maxFret)
   \<and> distinct (map avgFret (generateAllVoicings useFlats chord maxFret))"
proof (cases "parseChordName chord")
  case None
  then show ?thesis by (simp add: generateAllVoicings_def)
next
  case (Some parsed)
  let ?xs = "concat (map (familyVoicing useFlats chord (getNoteIndex (root parsed))
                          (shapeQualityOf (quality parsed)) maxFret) CAGED_SHAPES)"
  from Some have g: "generateAllVoicings useFlats chord maxFret = sort_key avgFret ?xs"
    by (rule generateAllVoicings_Some)
  have d: "distinct (map avgFret ?xs)" by (rule unsorted_distinct)
  then have "distinct ?xs \<and> inj_on avgFret (set ?xs)" by (simp only: distinct_map)
  then have d': "distinct (map avgFret (sort_key avgFret ?xs))"
    by (simp add: distinct_map)
  moreover have "sorted (map avgFret (sort_key avgFret ?xs))" by simp
  ultimately have "sorted_wrt (<) (map avgFret (sort_key avgFret ?xs))"
    by (simp only: strict_sorted_iff)
  then have "sorted_wrt (\<lambda>u v. avgFret u < avgFret v) (sort_key avgFret ?xs)"
    by (simp only: sorted_wrt_map)
  then have "sorted_wrt byAvgThenOrder (sort_key avgFret ?xs)"
    by (rule sorted_wrt_mono_rel[rotated]) (simp add: byAvgThenOrder_def)
  with d' show ?thesis by (simp only: g simp_thms)
qed


theorem generateAllVoicings_sorted_witness:
  "generateAllVoicings False (js ''Am'') 4 = [Am_open]
   \<and> sorted_wrt byAvgThenOrder (generateAllVoicings False (js ''C'') 15)
   \<and> distinct (map avgFret (generateAllVoicings False (js ''C'') 15))"
  using generateAllVoicings_sorted[of False "js ''C''" 15] generateAllVoicings_Am_4
  by simp

section \<open>Numbers: rounding keeps the order\<close>

lemma bitlen_powi_bounds:
  assumes "0 < p"
  shows "(2::rat) powi (bitlen p - 1) \<le> of_int p" "of_int p < (2::rat) powi (bitlen p)"
proof -
  from assms have b1: "1 \<le> bitlen p" by (auto simp: bitlen_alt_def)
  from bitlen_bounds[OF assms] have l: "2 ^ nat (bitlen p - 1) \<le> p" and u: "p < 2 ^ nat (bitlen p)"
    by auto
  from l have "(of_int (2 ^ nat (bitlen p - 1)) :: rat) \<le> of_int p" by (simp only: of_int_le_iff)
  then show "(2::rat) powi (bitlen p - 1) \<le> of_int p"
    using b1 by (simp add: power_int_def)
  from u have "(of_int p :: rat) < of_int (2 ^ nat (bitlen p))" by (simp only: of_int_less_iff)
  then show "of_int p < (2::rat) powi (bitlen p)"
    using b1 by (simp add: power_int_def)
qed

lemma floorLog2_bounds:
  assumes "0 < x"
  shows "2 powi (floorLog2 x) \<le> x" "x < 2 powi (floorLog2 x + 1)"
proof -
  obtain p q where pq: "quotient_of x = (p, q)" by (cases "quotient_of x")
  then have x: "x = of_int p / of_int q" and q: "0 < q"
    by (simp_all add: quotient_of_div quotient_of_denom_pos)
  from assms x q have p: "0 < p" by (simp add: zero_less_divide_iff)
  let ?d = "bitlen p - bitlen q"
  note bp = bitlen_powi_bounds[OF p] and bq = bitlen_powi_bounds[OF q]
  have qpos: "(0::rat) < of_int q" using q by simp
  have up: "x < 2 powi (?d + 1)"
  proof -
    have "of_int p < (2::rat) powi (bitlen p)" by (rule bp(2))
    also have "\<dots> = 2 powi (?d + 1) * 2 powi (bitlen q - 1)"
      by (simp add: power_int_add[symmetric])
    also have "\<dots> \<le> 2 powi (?d + 1) * of_int q"
      using bq(1) by (intro mult_left_mono) simp_all
    finally show ?thesis using qpos by (simp add: x pos_divide_less_eq)
  qed
  have lo: "2 powi (?d - 1) < x"
  proof -
    have "2 powi (?d - 1) * of_int q < 2 powi (?d - 1) * (2::rat) powi (bitlen q)"
      using bq(2) by (intro mult_strict_left_mono) simp_all
    also have "\<dots> = 2 powi (bitlen p - 1)"
      by (simp add: power_int_add[symmetric])
    also have "\<dots> \<le> of_int p" by (rule bp(1))
    finally show ?thesis using qpos by (simp add: x pos_less_divide_eq)
  qed
  show "2 powi (floorLog2 x) \<le> x"
    using lo by (auto simp: floorLog2_def pq Let_def)
  show "x < 2 powi (floorLog2 x + 1)"
    using up by (auto simp: floorLog2_def pq Let_def)
qed

lemma powi2_less_mono: "(2::rat) powi a < 2 powi b \<Longrightarrow> a < b"
  using power_int_increasing[of b a "2::rat"] by (cases "a < b") auto

lemma floorLog2_unique:
  assumes "0 < x" "2 powi k \<le> x" "x < 2 powi (k + 1)"
  shows "floorLog2 x = k"
proof -
  note b = floorLog2_bounds[OF assms(1)]
  from b(1) assms(3) have "(2::rat) powi (floorLog2 x) < 2 powi (k + 1)" by simp
  then have "floorLog2 x < k + 1" by (rule powi2_less_mono)
  moreover from assms(2) b(2) have "(2::rat) powi k < 2 powi (floorLog2 x + 1)" by simp
  then have "k < floorLog2 x + 1" by (rule powi2_less_mono)
  ultimately show ?thesis by simp
qed

lemma floorLog2_mono:
  assumes "0 < x" "x \<le> y"
  shows "floorLog2 x \<le> floorLog2 y"
proof -
  from assms have y: "0 < y" by simp
  from floorLog2_bounds(1)[OF assms(1)] assms(2) floorLog2_bounds(2)[OF y]
  have "(2::rat) powi (floorLog2 x) < 2 powi (floorLog2 y + 1)" by simp
  then have "floorLog2 x < floorLog2 y + 1" by (rule powi2_less_mono)
  then show ?thesis by simp
qed


lemma roundHalfEven_bounds: "\<lfloor>z\<rfloor> \<le> roundHalfEven z" "roundHalfEven z \<le> \<lfloor>z\<rfloor> + 1"
  by (simp_all add: roundHalfEven_def Let_def)

lemma roundHalfEven_of_int: "roundHalfEven (of_int n) = n"
  by (simp add: roundHalfEven_def)

lemma roundHalfEven_mono:
  assumes "z \<le> w"
  shows "roundHalfEven z \<le> roundHalfEven w"
proof (cases "\<lfloor>z\<rfloor> = \<lfloor>w\<rfloor>")
  case True
  from assms have "z - of_int \<lfloor>w\<rfloor> \<le> w - of_int \<lfloor>w\<rfloor>" by simp
  then show ?thesis by (auto simp: roundHalfEven_def Let_def True)
next
  case False
  with floor_mono[OF assms] have "\<lfloor>z\<rfloor> + 1 \<le> \<lfloor>w\<rfloor>" by simp
  with roundHalfEven_bounds(2)[of z] roundHalfEven_bounds(1)[of w] show ?thesis by simp
qed

lemma ulp_exponent_mono:
  assumes "0 < x" "x \<le> y"
  shows "max (floorLog2 x - 52) (- 1074) \<le> max (floorLog2 y - 52) (- 1074)"
  using floorLog2_mono[OF assms] by simp

lemma roundPositive_upper:
  assumes "0 < x"
  shows "roundPositive x \<le> 2 powi (max (floorLog2 x - 52) (- 1074) + 53)"
proof -
  let ?e = "max (floorLog2 x - 52) (- 1074)"
  have "floorLog2 x + 1 \<le> ?e + 53" by simp
  then have "(2::rat) powi (floorLog2 x + 1) \<le> 2 powi (?e + 53)"
    by (intro power_int_increasing) simp_all
  with floorLog2_bounds(2)[OF assms] have "x \<le> 2 powi (?e + 53)" by simp
  also have "\<dots> = 2 ^ 53 * 2 powi ?e" by (simp add: power_int_add)
  finally have "x / 2 powi ?e \<le> of_int (2 ^ 53)" by (simp add: pos_divide_le_eq)
  then have "roundHalfEven (x / 2 powi ?e) \<le> roundHalfEven (of_int (2 ^ 53))"
    by (rule roundHalfEven_mono)
  then have "roundHalfEven (x / 2 powi ?e) \<le> 2 ^ 53" by (simp only: roundHalfEven_of_int)
  then have "(of_int (roundHalfEven (x / 2 powi ?e)) :: rat) \<le> of_int (2 ^ 53)"
    by (simp only: of_int_le_iff)
  then have "of_int (roundHalfEven (x / 2 powi ?e)) * 2 powi ?e \<le> (2::rat) ^ 53 * 2 powi ?e"
    by (intro mult_right_mono) simp_all
  then show ?thesis by (simp add: roundPositive_def Let_def power_int_add)
qed

lemma roundPositive_lower:
  assumes "0 < y" "- 1074 < floorLog2 y - 52"
  shows "2 powi (floorLog2 y) \<le> roundPositive y"
proof -
  let ?e = "floorLog2 y - 52"
  from assms(2) have e: "max (floorLog2 y - 52) (- 1074) = ?e" by simp
  have "(2::rat) powi (floorLog2 y) = 2 ^ 52 * 2 powi ?e"
    by (simp add: power_int_diff)
  with floorLog2_bounds(1)[OF assms(1)] have "2 ^ 52 * 2 powi ?e \<le> y" by simp
  then have "of_int (2 ^ 52) \<le> y / 2 powi ?e" by (simp add: pos_le_divide_eq)
  then have "roundHalfEven (of_int (2 ^ 52)) \<le> roundHalfEven (y / 2 powi ?e)"
    by (rule roundHalfEven_mono)
  then have "2 ^ 52 \<le> roundHalfEven (y / 2 powi ?e)" by (simp only: roundHalfEven_of_int)
  then have "(of_int (2 ^ 52) :: rat) \<le> of_int (roundHalfEven (y / 2 powi ?e))"
    by (simp only: of_int_le_iff)
  then have "(2::rat) ^ 52 * 2 powi ?e \<le> of_int (roundHalfEven (y / 2 powi ?e)) * 2 powi ?e"
    by (intro mult_right_mono) simp_all
  then show ?thesis
    unfolding roundPositive_def Let_def e by (simp add: power_int_diff)
qed

lemma roundPositive_mono:
  assumes "0 < x" "x \<le> y"
  shows "roundPositive x \<le> roundPositive y"
proof -
  let ?ex = "max (floorLog2 x - 52) (- 1074)"
  let ?ey = "max (floorLog2 y - 52) (- 1074)"
  from assms have y: "0 < y" by simp
  have le: "?ex \<le> ?ey" using assms by (rule ulp_exponent_mono)
  show ?thesis
  proof (cases "?ex = ?ey")
    case True
    from assms(2) have "x / 2 powi ?ey \<le> y / 2 powi ?ey" by (simp add: divide_right_mono)
    then have "roundHalfEven (x / 2 powi ?ey) \<le> roundHalfEven (y / 2 powi ?ey)"
      by (rule roundHalfEven_mono)
    then have "(of_int (roundHalfEven (x / 2 powi ?ey)) :: rat)
                 \<le> of_int (roundHalfEven (y / 2 powi ?ey))"
      by (simp only: of_int_le_iff)
    then have "of_int (roundHalfEven (x / 2 powi ?ey)) * 2 powi ?ey
                 \<le> of_int (roundHalfEven (y / 2 powi ?ey)) * (2::rat) powi ?ey"
      by (intro mult_right_mono) simp_all
    then show ?thesis unfolding roundPositive_def Let_def True .
  next
    case False
    with le have lt: "?ex < ?ey" by linarith
    then have un: "- 1074 < floorLog2 y - 52" by linarith
    then have ey: "?ey = floorLog2 y - 52" by linarith
    have "roundPositive x \<le> 2 powi (?ex + 53)" using assms(1) by (rule roundPositive_upper)
    also from lt ey have "?ex + 53 \<le> floorLog2 y" by linarith
    then have "(2::rat) powi (?ex + 53) \<le> 2 powi (floorLog2 y)"
      by (intro power_int_increasing) simp_all
    also have "\<dots> \<le> roundPositive y" using y un by (rule roundPositive_lower)
    finally show ?thesis .
  qed
qed

lemma roundPositive_nonneg:
  assumes "0 < x"
  shows "0 \<le> roundPositive x"
proof -
  let ?e = "max (floorLog2 x - 52) (- 1074)"
  from assms have "0 \<le> x / 2 powi ?e" by simp
  then have "roundHalfEven 0 \<le> roundHalfEven (x / 2 powi ?e)" by (rule roundHalfEven_mono)
  then have "0 \<le> roundHalfEven (x / 2 powi ?e)" by (simp add: roundHalfEven_def)
  then show ?thesis by (simp add: roundPositive_def Let_def)
qed

lemma roundDouble_mono:
  assumes "x \<le> y"
  shows "roundDouble x \<le> roundDouble y"
proof -
  consider "0 < x" | "x \<le> 0" "0 \<le> y" | "y < 0" by linarith
  then show ?thesis
  proof cases
    case 1
    with assms roundPositive_mono[of x y] show ?thesis by (simp add: roundDouble_def)
  next
    case 2
    have "roundDouble x \<le> 0"
      using roundPositive_nonneg[of "- x"] 2(1) by (simp add: roundDouble_def)
    moreover have "0 \<le> roundDouble y"
      using roundPositive_nonneg[of y] 2(2) by (simp add: roundDouble_def)
    ultimately show ?thesis by simp
  next
    case 3
    with assms roundPositive_mono[of "- y" "- x"] show ?thesis by (simp add: roundDouble_def)
  qed
qed

lemma calculateMovementCost_written_out: "calculateMovementCost a b = movementCost a b"
  by (simp add: calculateMovementCost_def movementCost_def Let_def)

section \<open>The progression optimizer: the two searches for a minimum\<close>

lemma costLess_trans: "\<not> costLess b a \<Longrightarrow> \<not> costLess c b \<Longrightarrow> \<not> costLess c a"
  by (cases a; cases b; cases c) auto

lemma costLess_asym: "costLess a b \<Longrightarrow> \<not> costLess b a"
  by (cases a; cases b) auto

lemma costLess_irrefl: "\<not> costLess a a"
  by (cases a) auto

lemma fold_improve:
  assumes "\<forall>k \<in> set ks. f k = Some (t k)"
  shows "(fold (improve f) ks b = b
            \<or> (\<exists>k \<in> set ks. fold (improve f) ks b = (Some (t k), int k)))
         \<and> \<not> costLess (fst b) (fst (fold (improve f) ks b))
         \<and> (\<forall>k \<in> set ks. \<not> costLess (Some (t k)) (fst (fold (improve f) ks b)))"
  using assms
proof (induction ks arbitrary: b)
  case Nil
  then show ?case by (simp add: costLess_irrefl)
next
  case (Cons k ks)
  let ?b = "improve f k b"
  let ?r = "fold (improve f) ks ?b"
  from Cons.prems have fk: "f k = Some (t k)" and rest: "\<forall>k \<in> set ks. f k = Some (t k)"
    by simp_all
  from Cons.IH[OF rest, of ?b]
  have a: "?r = ?b \<or> (\<exists>k \<in> set ks. ?r = (Some (t k), int k))"
    and b: "\<not> costLess (fst ?b) (fst ?r)"
    and c: "\<forall>k \<in> set ks. \<not> costLess (Some (t k)) (fst ?r)"
    by blast+
  have step: "?b = b \<or> ?b = (Some (t k), int k)"
    by (simp add: improve_def fk)
  have le_b: "\<not> costLess (fst b) (fst ?b)"
    by (auto simp: improve_def costLess_irrefl dest: costLess_asym)
  have le_k: "\<not> costLess (Some (t k)) (fst ?b)"
    by (auto simp: improve_def fk costLess_irrefl)
  from a step have "?r = b \<or> (\<exists>k' \<in> set (k # ks). ?r = (Some (t k'), int k'))"
    by auto
  moreover from le_b b have "\<not> costLess (fst b) (fst ?r)" by (rule costLess_trans[rotated])
  moreover from le_k b have "\<not> costLess (Some (t k)) (fst ?r)" by (rule costLess_trans[rotated])
  ultimately show ?case using c by simp
qed

lemma fold_improve_from_infinity:
  assumes "\<forall>k \<in> set ks. f k = Some (t k)" "ks \<noteq> []"
  shows "\<exists>k \<in> set ks. fold (improve f) ks (None, i0) = (Some (t k), int k)
           \<and> (\<forall>j \<in> set ks. t k \<le> t j)"
proof -
  let ?r = "fold (improve f) ks (None, i0)"
  from fold_improve[OF assms(1), of "(None, i0)"]
  have a: "?r = (None, i0) \<or> (\<exists>k \<in> set ks. ?r = (Some (t k), int k))"
    and c: "\<forall>k \<in> set ks. \<not> costLess (Some (t k)) (fst ?r)"
    by blast+
  from assms(2) obtain k0 where "k0 \<in> set ks" by (cases ks) auto
  with c have "\<not> costLess (Some (t k0)) (fst ?r)" by blast
  then have "?r \<noteq> (None, i0)" by auto
  with a obtain k where k: "k \<in> set ks" "?r = (Some (t k), int k)" by blast
  from c k(2) have "\<forall>j \<in> set ks. t k \<le> t j" by (simp add: not_less)
  with k show ?thesis by blast
qed

lemma relaxCell_min:
  assumes "length prevCells = length prevVs" "prevVs \<noteq> []"
    and "\<forall>k < length prevVs. cost (prevCells ! k) = Some (c k)"
  shows "\<exists>k < length prevVs.
           relaxCell prevVs prevCells v
             = \<lparr>cost = Some (jsAdd (c k) (movementCost (prevVs ! k) v)), prev = int k\<rparr>
         \<and> (\<forall>j < length prevVs. jsAdd (c k) (movementCost (prevVs ! k) v)
                                   \<le> jsAdd (c j) (movementCost (prevVs ! j) v))"
proof -
  let ?f = "\<lambda>k. costPlus (cost (prevCells ! k)) (calculateMovementCost (prevVs ! k) v)"
  let ?t = "\<lambda>k. jsAdd (c k) (movementCost (prevVs ! k) v)"
  from assms(3) have "\<forall>k \<in> set [0..<length prevVs]. ?f k = Some (?t k)"
    by (simp add: calculateMovementCost_written_out)
  moreover from assms(2) have "[0..<length prevVs] \<noteq> []" by simp
  ultimately obtain k where k: "k \<in> set [0..<length prevVs]"
    "fold (improve ?f) [0..<length prevVs] (None, -1) = (Some (?t k), int k)"
    "\<forall>j \<in> set [0..<length prevVs]. ?t k \<le> ?t j"
    using fold_improve_from_infinity[of "[0..<length prevVs]" ?f ?t "-1"] by blast
  from k(2) have "relaxCell prevVs prevCells v = \<lparr>cost = Some (?t k), prev = int k\<rparr>"
    by (simp add: relaxCell_def)
  with k(1,3) show ?thesis by auto
qed

lemma bestEnding_min:
  assumes "cells \<noteq> []" "\<forall>j < length cells. cost (cells ! j) = Some (c j)"
  shows "\<exists>k < length cells. bestEnding cells = int k \<and> (\<forall>j < length cells. c k \<le> c j)"
proof -
  let ?f = "\<lambda>i. cost (cells ! i)"
  from assms(2) have "\<forall>k \<in> set [0..<length cells]. ?f k = Some (c k)" by simp
  moreover from assms(1) have "[0..<length cells] \<noteq> []" by simp
  ultimately obtain k where k: "k \<in> set [0..<length cells]"
    "fold (improve ?f) [0..<length cells] (None, 0) = (Some (c k), int k)"
    "\<forall>j \<in> set [0..<length cells]. c k \<le> c j"
    using fold_improve_from_infinity[of "[0..<length cells]" ?f c 0] by blast
  from k(2) have "bestEnding cells = int k" by (simp add: bestEnding_def)
  with k(1,3) show ?thesis by auto
qed

lemma fold_closest:
  "fold (\<lambda>v best. if d v < d best then v else best) vs b \<in> set (b # vs)
   \<and> (\<forall>x \<in> set (b # vs). d (fold (\<lambda>v best. if d v < d best then v else best) vs b) \<le> (d x :: rat))"
proof (induction vs arbitrary: b)
  case Nil
  then show ?case by simp
next
  case (Cons v vs)
  let ?b = "if d v < d b then v else b"
  from Cons.IH[of ?b] show ?case by (auto split: if_splits)
qed

section \<open>The progression optimizer: paths and the table\<close>

lemma costFrom_snoc:
  "costFrom c u (ws @ [v]) = jsAdd (costFrom c u ws) (movementCost (last (u # ws)) v)"
  by (induction ws arbitrary: c u) simp_all

lemma totalCost_snoc:
  assumes "p \<noteq> []"
  shows "totalCost pf (p @ [v]) = jsAdd (totalCost pf p) (movementCost (last p) v)"
proof -
  from assms obtain u ws where p: "p = u # ws" by (cases p) auto
  show ?thesis unfolding p totalCost_def by (simp add: costFrom_snoc)
qed

lemma totalCost_single: "totalCost pf [v] = \<bar>jsSub (avgFretDouble v) pf\<bar>"
  by (simp add: totalCost_def)

lemma jsAdd_mono: "a \<le> b \<Longrightarrow> jsAdd a m \<le> jsAdd b m"
  unfolding jsAdd_def by (rule roundDouble_mono) simp

lemma chooses_length: "chooses p layers \<Longrightarrow> length p = length layers"
  by (simp add: chooses_def list_all2_lengthD)

lemma chooses_last:
  assumes "chooses p layers" "layers \<noteq> []"
  shows "last p \<in> set (last layers)"
proof -
  from assms have l: "length p = length layers" "p \<noteq> []"
    by (auto simp: chooses_def dest: list_all2_lengthD)
  then have "length p - 1 < length p" by (cases p) auto
  with assms(1) have "p ! (length p - 1) \<in> set (layers ! (length p - 1))"
    unfolding chooses_def by (rule list_all2_nthD)
  with l assms(2) show ?thesis by (simp add: last_conv_nth)
qed

lemma chooses_snoc:
  "chooses p (layers @ [vs]) \<longleftrightarrow>
     (\<exists>p' x. p = p' @ [x] \<and> chooses p' layers \<and> x \<in> set vs)"
proof
  assume "chooses p (layers @ [vs])"
  then obtain us ws where p: "p = us @ ws" and "length ws = length [vs]"
    and us: "list_all2 (\<lambda>v vs. v \<in> set vs) us layers"
    and ws: "list_all2 (\<lambda>v vs. v \<in> set vs) ws [vs]"
    unfolding chooses_def list_all2_append2 by blast
  from ws obtain x where "ws = [x]" "x \<in> set vs"
    by (auto simp: list_all2_Cons2)
  with p us show "\<exists>p' x. p = p' @ [x] \<and> chooses p' layers \<and> x \<in> set vs"
    by (auto simp: chooses_def)
next
  assume "\<exists>p' x. p = p' @ [x] \<and> chooses p' layers \<and> x \<in> set vs"
  then show "chooses p (layers @ [vs])"
    by (auto simp: chooses_def intro: list_all2_appendI)
qed

lemma solved_first:
  assumes "vs \<noteq> []"
  shows "solved pf [vs] [map (\<lambda>v. \<lparr>cost = Some \<bar>jsSub (avgFretDouble v) pf\<bar>, prev = -1\<rparr>) vs]"
proof -
  have "\<exists>q. (\<forall>acc. backtrack [vs] [map (\<lambda>v. \<lparr>cost = Some \<bar>jsSub (avgFretDouble v) pf\<bar>, prev = -1\<rparr>) vs]
                      (int j) acc = Some (q @ acc))
           \<and> chooses q [vs] \<and> last q = vs ! j
           \<and> cost (map (\<lambda>v. \<lparr>cost = Some \<bar>jsSub (avgFretDouble v) pf\<bar>, prev = -1\<rparr>) vs ! j)
               = Some (totalCost pf q)
           \<and> (\<forall>p. chooses p [vs] \<and> last p = vs ! j \<longrightarrow> totalCost pf q \<le> totalCost pf p)"
    if j: "j < length vs" for j
  proof (intro exI[of _ "[vs ! j]"] conjI allI impI)
    fix acc
    from j show "backtrack [vs] [map (\<lambda>v. \<lparr>cost = Some \<bar>jsSub (avgFretDouble v) pf\<bar>, prev = -1\<rparr>) vs]
                   (int j) acc = Some ([vs ! j] @ acc)"
      by simp
  next
    from j show "chooses [vs ! j] [vs]" by (simp add: chooses_def)
  next
    show "last [vs ! j] = vs ! j" by simp
  next
    from j show "cost (map (\<lambda>v. \<lparr>cost = Some \<bar>jsSub (avgFretDouble v) pf\<bar>, prev = -1\<rparr>) vs ! j)
               = Some (totalCost pf [vs ! j])"
      by (simp add: totalCost_single)
  next
    fix p
    assume "chooses p [vs] \<and> last p = vs ! j"
    then have "p = [vs ! j]" by (auto simp: chooses_def list_all2_Cons2)
    then show "totalCost pf [vs ! j] \<le> totalCost pf p" by simp
  qed
  with assms show ?thesis by (simp add: solved_def)
qed

lemma solved_step:
  assumes s: "solved pf revL revD" and vs: "vs \<noteq> []"
  shows "solved pf (vs # revL) (map (relaxCell (hd revL) (hd revD)) vs # revD)"
proof -
  let ?vsP = "hd revL"
  let ?cellsP = "hd revD"
  let ?cells = "map (relaxCell ?vsP ?cellsP) vs"
  from s have ne: "revL \<noteq> []" and len: "length revD = length revL" and vsP: "?vsP \<noteq> []"
    and lenP: "length ?cellsP = length ?vsP"
    and ex: "\<forall>j < length ?vsP.
        \<exists>q. (\<forall>acc. backtrack revL revD (int j) acc = Some (q @ acc))
           \<and> chooses q (rev revL) \<and> last q = ?vsP ! j
           \<and> cost (?cellsP ! j) = Some (totalCost pf q)
           \<and> (\<forall>p. chooses p (rev revL) \<and> last p = ?vsP ! j
                  \<longrightarrow> totalCost pf q \<le> totalCost pf p)"
    unfolding solved_def by blast+
  from ex have "\<forall>j. \<exists>q. j < length ?vsP \<longrightarrow>
           (\<forall>acc. backtrack revL revD (int j) acc = Some (q @ acc))
           \<and> chooses q (rev revL) \<and> last q = ?vsP ! j
           \<and> cost (?cellsP ! j) = Some (totalCost pf q)
           \<and> (\<forall>p. chooses p (rev revL) \<and> last p = ?vsP ! j
                  \<longrightarrow> totalCost pf q \<le> totalCost pf p)"
    by blast
  then obtain qf where qf: "\<forall>j. j < length ?vsP \<longrightarrow>
           (\<forall>acc. backtrack revL revD (int j) acc = Some (qf j @ acc))
           \<and> chooses (qf j) (rev revL) \<and> last (qf j) = ?vsP ! j
           \<and> cost (?cellsP ! j) = Some (totalCost pf (qf j))
           \<and> (\<forall>p. chooses p (rev revL) \<and> last p = ?vsP ! j
                  \<longrightarrow> totalCost pf (qf j) \<le> totalCost pf p)"
    by (rule choice[THEN exE])
  have qf_back: "backtrack revL revD (int k) acc = Some (qf k @ acc)"
    and qf_ch: "chooses (qf k) (rev revL)" and qf_last: "last (qf k) = ?vsP ! k"
    and qf_cost: "cost (?cellsP ! k) = Some (totalCost pf (qf k))"
    and qf_min: "\<And>p. chooses p (rev revL) \<Longrightarrow> last p = ?vsP ! k
                   \<Longrightarrow> totalCost pf (qf k) \<le> totalCost pf p"
    if "k < length ?vsP" for k acc
    using qf that by blast+
  let ?c = "\<lambda>k. totalCost pf (qf k)"
  have costs: "\<forall>k < length ?vsP. cost (?cellsP ! k) = Some (?c k)"
    using qf_cost by blast
  have per_cell: "\<exists>q. (\<forall>acc. backtrack (vs # revL) (?cells # revD) (int j) acc = Some (q @ acc))
           \<and> chooses q (rev (vs # revL)) \<and> last q = vs ! j
           \<and> cost (?cells ! j) = Some (totalCost pf q)
           \<and> (\<forall>p. chooses p (rev (vs # revL)) \<and> last p = vs ! j
                  \<longrightarrow> totalCost pf q \<le> totalCost pf p)"
    if j: "j < length vs" for j
  proof -
    let ?v = "vs ! j"
    from relaxCell_min[OF lenP vsP costs, of ?v] obtain k where k: "k < length ?vsP"
      and cell: "relaxCell ?vsP ?cellsP ?v
                   = \<lparr>cost = Some (jsAdd (?c k) (movementCost (?vsP ! k) ?v)), prev = int k\<rparr>"
      and least: "\<forall>i < length ?vsP. jsAdd (?c k) (movementCost (?vsP ! k) ?v)
                                   \<le> jsAdd (?c i) (movementCost (?vsP ! i) ?v)"
      by blast
    from qf_ch[OF k] ne have qne: "qf k \<noteq> []"
      by (auto simp: chooses_def dest: list_all2_lengthD)
    let ?q = "qf k @ [?v]"
    have c1: "backtrack (vs # revL) (?cells # revD) (int j) acc = Some (?q @ acc)" for acc
      using j cell qf_back[OF k] by simp
    have c2: "chooses ?q (rev (vs # revL))"
      using qf_ch[OF k] j by (simp add: chooses_snoc)
    have c3: "last ?q = ?v" by simp
    have tq: "totalCost pf ?q = jsAdd (?c k) (movementCost (?vsP ! k) ?v)"
      using qne qf_last[OF k] by (simp add: totalCost_snoc)
    have c4: "cost (?cells ! j) = Some (totalCost pf ?q)"
      using j cell tq by simp
    have c5: "totalCost pf ?q \<le> totalCost pf p"
      if p: "chooses p (rev (vs # revL))" "last p = ?v" for p
    proof -
      from p(1) obtain p' x where px: "p = p' @ [x]" and p': "chooses p' (rev revL)"
        by (auto simp: chooses_snoc)
      with p(2) have x: "x = ?v" by simp
      from ne have rne: "rev revL \<noteq> []" by simp
      from chooses_last[OF p' rne] ne have "last p' \<in> set ?vsP" by (simp add: last_rev)
      then obtain i where i: "i < length ?vsP" "last p' = ?vsP ! i"
        by (auto simp: in_set_conv_nth)
      from p' rne have p'ne: "p' \<noteq> []"
        by (auto simp: chooses_def dest: list_all2_lengthD)
      then have "totalCost pf p = jsAdd (totalCost pf p') (movementCost (?vsP ! i) ?v)"
        by (simp add: px x totalCost_snoc i(2))
      moreover from qf_min[OF i(1) p' i(2)] have "?c i \<le> totalCost pf p'" .
      then have "jsAdd (?c i) (movementCost (?vsP ! i) ?v)
                   \<le> jsAdd (totalCost pf p') (movementCost (?vsP ! i) ?v)"
        by (rule jsAdd_mono)
      moreover from least i(1)
      have "jsAdd (?c k) (movementCost (?vsP ! k) ?v) \<le> jsAdd (?c i) (movementCost (?vsP ! i) ?v)"
        by blast
      ultimately show ?thesis using tq by simp
    qed
    from c1 c2 c3 c4 c5 show ?thesis by blast
  qed
  show ?thesis
    unfolding solved_def using per_cell len vs by simp
qed

lemma solved_fillDP:
  assumes "solved pf revL revD" "\<forall>vs \<in> set rest. vs \<noteq> []"
  shows "solved pf (rev rest @ revL) (rev (fillDP (hd revD) (hd revL) rest) @ revD)"
  using assms
proof (induction rest arbitrary: revL revD)
  case Nil
  then show ?case by simp
next
  case (Cons vs rest)
  let ?cells = "map (relaxCell (hd revL) (hd revD)) vs"
  from Cons.prems have "vs \<noteq> []" and r: "\<forall>vs \<in> set rest. vs \<noteq> []" by simp_all
  from solved_step[OF Cons.prems(1) this(1)]
  have "solved pf (vs # revL) (?cells # revD)" .
  from Cons.IH[OF this r] show ?case by (simp add: Let_def)
qed

lemma solved_best:
  assumes s: "solved pf revL revD"
  shows "\<exists>q. backtrack revL revD (bestEnding (hd revD)) [] = Some q
           \<and> chooses q (rev revL)
           \<and> (\<forall>p. chooses p (rev revL) \<longrightarrow> totalCost pf q \<le> totalCost pf p)"
proof -
  let ?vs = "hd revL"
  let ?cells = "hd revD"
  from s have ne: "revL \<noteq> []" and vs: "?vs \<noteq> []"
    and len: "length ?cells = length ?vs"
    and ex: "\<forall>j < length ?vs.
        \<exists>q. (\<forall>acc. backtrack revL revD (int j) acc = Some (q @ acc))
           \<and> chooses q (rev revL) \<and> last q = ?vs ! j
           \<and> cost (?cells ! j) = Some (totalCost pf q)
           \<and> (\<forall>p. chooses p (rev revL) \<and> last p = ?vs ! j
                  \<longrightarrow> totalCost pf q \<le> totalCost pf p)"
    unfolding solved_def by blast+
  from ex have "\<forall>j. \<exists>q. j < length ?vs \<longrightarrow>
           (\<forall>acc. backtrack revL revD (int j) acc = Some (q @ acc))
           \<and> chooses q (rev revL) \<and> last q = ?vs ! j
           \<and> cost (?cells ! j) = Some (totalCost pf q)
           \<and> (\<forall>p. chooses p (rev revL) \<and> last p = ?vs ! j
                  \<longrightarrow> totalCost pf q \<le> totalCost pf p)"
    by blast
  then obtain qf where qf: "\<forall>j. j < length ?vs \<longrightarrow>
           (\<forall>acc. backtrack revL revD (int j) acc = Some (qf j @ acc))
           \<and> chooses (qf j) (rev revL) \<and> last (qf j) = ?vs ! j
           \<and> cost (?cells ! j) = Some (totalCost pf (qf j))
           \<and> (\<forall>p. chooses p (rev revL) \<and> last p = ?vs ! j
                  \<longrightarrow> totalCost pf (qf j) \<le> totalCost pf p)"
    by (rule choice[THEN exE])
  have qf_back: "backtrack revL revD (int k) acc = Some (qf k @ acc)"
    and qf_ch: "chooses (qf k) (rev revL)"
    and qf_cost: "cost (?cells ! k) = Some (totalCost pf (qf k))"
    and qf_min: "\<And>p. chooses p (rev revL) \<Longrightarrow> last p = ?vs ! k
                   \<Longrightarrow> totalCost pf (qf k) \<le> totalCost pf p"
    if "k < length ?vs" for k acc
    using qf that by blast+
  let ?c = "\<lambda>k. totalCost pf (qf k)"
  from vs len have cne: "?cells \<noteq> []" by auto
  have "\<forall>j < length ?cells. cost (?cells ! j) = Some (?c j)"
    using qf_cost len by simp
  from bestEnding_min[OF cne this] len obtain k where k: "k < length ?vs"
    and best: "bestEnding ?cells = int k" and least: "\<forall>j < length ?vs. ?c k \<le> ?c j"
    by auto
  have "backtrack revL revD (bestEnding ?cells) [] = Some (qf k)"
    using qf_back[OF k, of "[]"] best by simp
  moreover have "totalCost pf (qf k) \<le> totalCost pf p" if p: "chooses p (rev revL)" for p
  proof -
    from ne have rne: "rev revL \<noteq> []" by simp
    from chooses_last[OF p rne] ne have "last p \<in> set ?vs" by (simp add: last_rev)
    then obtain j where j: "j < length ?vs" "last p = ?vs ! j"
      by (auto simp: in_set_conv_nth)
    from qf_min[OF j(1) p j(2)] least j(1) show ?thesis by force
  qed
  ultimately show ?thesis using qf_ch[OF k] by blast
qed

lemma allVoicings_candidates:
  "allVoicings uf pf fr chordNames = map (candidates uf pf fr) chordNames"
  by (simp add: allVoicings_def candidates_def Let_def zip_map1 zip_same_conv_map)

lemma candidates_nonempty:
  "generateAllVoicings uf c 15 \<noteq> [] \<Longrightarrow> candidates uf pf fr c \<noteq> []"
  by (simp add: candidates_def Let_def)

lemma generateAllVoicings_nonempty:
  assumes "parseChordName chord = Some parsed"
    and "familyVoicing uf chord (getNoteIndex (root parsed)) (shapeQualityOf (quality parsed))
           mf (E_shape, cagedTable E_shape) \<noteq> []"
  shows "generateAllVoicings uf chord mf \<noteq> []"
proof -
  have "length (generateAllVoicings uf chord mf)
          = length (concat (map (familyVoicing uf chord (getNoteIndex (root parsed))
                             (shapeQualityOf (quality parsed)) mf) CAGED_SHAPES))"
    unfolding generateAllVoicings_Some[OF assms(1)] by simp
  also from assms(2) have "\<dots> \<noteq> 0"
    by (simp add: CAGED_SHAPES_def del: cagedTable.simps)
  finally show ?thesis by auto
qed

lemma generateAllVoicings_Am_C_nonempty:
  "generateAllVoicings False (js ''Am'') 15 \<noteq> []"
  "generateAllVoicings False (js ''C'') 15 \<noteq> []"
proof -
  have 1: "familyVoicing False (js ''Am'') (getNoteIndex (js ''A'')) (shapeQualityOf Minor)
            15 (E_shape, cagedTable E_shape) \<noteq> []"
    by (simp add: getNoteIndex_def noteMap_def
        shapeQualityOf_def qualityMap_def familyVoicing_def shapeTranspose_def
        jsRem_def placeShape_def placeString_def upt_conv_Cons Let_def js_def)
  have 2: "familyVoicing False (js ''C'') (getNoteIndex (js ''C'')) (shapeQualityOf Major)
            15 (E_shape, cagedTable E_shape) \<noteq> []"
    by (simp add: getNoteIndex_def noteMap_def
        shapeQualityOf_def qualityMap_def familyVoicing_def shapeTranspose_def
        jsRem_def placeShape_def placeString_def upt_conv_Cons Let_def js_def)
  from generateAllVoicings_nonempty[OF parse_examples(1)] 1
  show "generateAllVoicings False (js ''Am'') 15 \<noteq> []" by simp
  from generateAllVoicings_nonempty[OF parse_examples(2)] 2
  show "generateAllVoicings False (js ''C'') 15 \<noteq> []" by simp
qed

section \<open>The progression optimizer: a run where rounding decides\<close>

lemma roundHalfEven_fraction:
  assumes "0 < d"
  shows "roundHalfEven (of_int n / of_int d) =
           (if 2 * (n mod d) < d then n div d
            else if d < 2 * (n mod d) then n div d + 1
            else if even (n div d) then n div d else n div d + 1)"
proof -
  have f: "\<lfloor>(of_int n :: rat) / of_int d\<rfloor> = n div d" by (simp add: floor_divide_of_int_eq)
  have "(of_int n :: rat) = of_int (n div d) * of_int d + of_int (n mod d)"
    by (simp flip: of_int_mult of_int_add)
  with assms have r: "(of_int n :: rat) / of_int d - of_int (n div d) = of_int (n mod d) / of_int d"
    by (simp add: field_simps)
  from assms have dpos: "(0::rat) < of_int d" by simp
  have "(of_int (n mod d) :: rat) / of_int d < 1 / 2 \<longleftrightarrow> (of_int (2 * (n mod d)) :: rat) < of_int d"
    using dpos by (simp add: pos_divide_less_eq mult.commute)
  then have lt: "(of_int (n mod d) :: rat) / of_int d < 1 / 2 \<longleftrightarrow> 2 * (n mod d) < d"
    by (simp only: of_int_less_iff)
  have "1 / 2 < (of_int (n mod d) :: rat) / of_int d \<longleftrightarrow> (of_int d :: rat) < of_int (2 * (n mod d))"
    using dpos by (simp add: pos_less_divide_eq mult.commute)
  then have gt: "1 / 2 < (of_int (n mod d) :: rat) / of_int d \<longleftrightarrow> d < 2 * (n mod d)"
    by (simp only: of_int_less_iff)
  show ?thesis unfolding roundHalfEven_def Let_def f r lt gt by simp
qed

lemma roundDouble_fraction:
  assumes "0 < n" "0 < d" "x = of_int n / of_int d"
    and "2 powi k \<le> x" "x < 2 powi (k + 1)" "- 1022 \<le> k" "k \<le> 52"
  shows "roundDouble x
           = of_int (let m = n * 2 ^ nat (52 - k)
                     in if 2 * (m mod d) < d then m div d
                        else if d < 2 * (m mod d) then m div d + 1
                        else if even (m div d) then m div d else m div d + 1)
             / 2 ^ nat (52 - k)"
proof -
  from assms(1-3) have x: "0 < x" by simp
  from x assms(4,5) have "floorLog2 x = k" by (rule floorLog2_unique)
  moreover from assms(6) have "max (k - 52) (- 1074) = k - 52" by linarith
  moreover from assms(7) have "(2::rat) powi (k - 52) = 1 / 2 ^ nat (52 - k)"
    by (simp add: power_int_def field_simps)
  moreover have "x * 2 ^ nat (52 - k) = of_int (n * 2 ^ nat (52 - k)) / of_int d"
    by (simp add: assms(3))
  ultimately show ?thesis using x roundHalfEven_fraction[OF assms(2), of "n * 2 ^ nat (52 - k)"]
    by (simp add: roundDouble_def roundPositive_def Let_def)
qed

lemma roundDouble_minus: "roundDouble (- x) = - roundDouble x"
  by (simp add: roundDouble_def)

lemma double_avg_A: "roundDouble (3 / 5) = 5404319552844595 / 9007199254740992"
  using roundDouble_fraction[of 3 5 "3 / 5" "-1"]
  by (simp add: power_int_def Let_def)

lemma double_avg_G: "roundDouble (10 / 3) = 7505999378950827 / 2251799813685248"
  using roundDouble_fraction[of 10 3 "10 / 3" "1"]
  by (simp add: power_int_def Let_def)

lemma double_avg_E: "roundDouble (16 / 3) = 6004799503160661 / 1125899906842624"
  using roundDouble_fraction[of 16 3 "16 / 3" "2"]
  by (simp add: power_int_def Let_def)

lemma double_avg_D: "roundDouble (8) = 8"
  using roundDouble_fraction[of 8 1 "8" "3"]
  by (simp add: power_int_def Let_def)

lemma double_avg_C: "roundDouble (11) = 11"
  using roundDouble_fraction[of 11 1 "11" "3"]
  by (simp add: power_int_def Let_def)

lemma double_preferred: "roundDouble (1107134908395247 / 562949953421312) = 1107134908395247 / 562949953421312"
  using roundDouble_fraction[of 1107134908395247 562949953421312 "1107134908395247 / 562949953421312" "0"]
  by (simp add: power_int_def Let_def)

lemma double_low: "roundDouble (1107134908395247 / 562949953421312 - 7) = - (2833514765553937 / 562949953421312)"
  using roundDouble_fraction[of 2833514765553937 562949953421312 "7 - 1107134908395247 / 562949953421312" "2"]
    roundDouble_minus[of "7 - 1107134908395247 / 562949953421312"]
  by (simp add: power_int_def Let_def)

lemma double_high: "roundDouble (1107134908395247 / 562949953421312 + 7) = 5047784582344431 / 562949953421312"
  using roundDouble_fraction[of 5047784582344431 562949953421312 "1107134908395247 / 562949953421312 + 7" "3"]
  by (simp add: power_int_def Let_def)

lemma double_distance_A: "roundDouble (5404319552844595 / 9007199254740992 - 1107134908395247 / 562949953421312) = - (3077459745369839 / 2251799813685248)"
  using roundDouble_fraction[of 12309838981479357 9007199254740992 "1107134908395247 / 562949953421312 - 5404319552844595 / 9007199254740992" "0"]
    roundDouble_minus[of "1107134908395247 / 562949953421312 - 5404319552844595 / 9007199254740992"]
  by (simp add: power_int_def Let_def)

lemma double_distance_G: "roundDouble (7505999378950827 / 2251799813685248 - 1107134908395247 / 562949953421312) = 3077459745369839 / 2251799813685248"
  using roundDouble_fraction[of 3077459745369839 2251799813685248 "7505999378950827 / 2251799813685248 - 1107134908395247 / 562949953421312" "0"]
  by (simp add: power_int_def Let_def)

lemma double_distance_E: "roundDouble (6004799503160661 / 1125899906842624 - 1107134908395247 / 562949953421312) = 3790529686370167 / 1125899906842624"
  using roundDouble_fraction[of 3790529686370167 1125899906842624 "6004799503160661 / 1125899906842624 - 1107134908395247 / 562949953421312" "1"]
  by (simp add: power_int_def Let_def)

lemma double_distance_D: "roundDouble (8 - 1107134908395247 / 562949953421312) = 3396464718975249 / 562949953421312"
  using roundDouble_fraction[of 3396464718975249 562949953421312 "8 - 1107134908395247 / 562949953421312" "2"]
  by (simp add: power_int_def Let_def)

lemma parseChordName_Am7:
  "parseChordName (js ''Am7'') = Some \<lparr>root = js ''A'', quality = Min7, bass = None\<rparr>"
  by (simp add: parseChordName_def str_defs)

lemma generateAllVoicings_Am7:
  "generateAllVoicings False (js ''Am7'') 15
     = [Am7_A_shape, Am7_G_shape, Am7_E_shape, Am7_D_shape, Am7_C_shape]"
  unfolding generateAllVoicings_Some[OF parseChordName_Am7]
  by (simp add: getNoteIndex_def noteMap_def
        shapeQualityOf_def qualityMap_def CAGED_SHAPES_def familyVoicing_def shapeTranspose_def
        jsRem_def placeShape_def placeString_def upt_conv_Cons getNoteAtPosition_def
        OPEN_STRING_NOTES_def NOTE_NAMES_def noteIndexOf_def Let_def js_def
        Am7_A_shape_def Am7_G_shape_def Am7_E_shape_def Am7_D_shape_def Am7_C_shape_def)

lemma avgFretDouble_Am7:
  "avgFretDouble Am7_A_shape = 5404319552844595 / 9007199254740992"
  "avgFretDouble Am7_G_shape = 7505999378950827 / 2251799813685248"
  "avgFretDouble Am7_E_shape = 6004799503160661 / 1125899906842624"
  "avgFretDouble Am7_D_shape = 8"
  "avgFretDouble Am7_C_shape = 11"
  using double_avg_A double_avg_G double_avg_E double_avg_D double_avg_C
  by (simp_all add: avgFretDouble_def Am7_A_shape_def Am7_G_shape_def Am7_E_shape_def
        Am7_D_shape_def Am7_C_shape_def)

lemma range_nearTie:
  "jsSub nearTie 7 = - (2833514765553937 / 562949953421312)"
  "jsAdd nearTie 7 = 5047784582344431 / 562949953421312"
  using double_low double_high by (simp_all add: jsSub_def jsAdd_def nearTie_def)

lemma candidates_Am7:
  "candidates False nearTie 7 (js ''Am7'') = [Am7_A_shape, Am7_G_shape, Am7_E_shape, Am7_D_shape]"
  unfolding candidates_def generateAllVoicings_Am7 Let_def
  by (simp add: avgFretDouble_Am7 range_nearTie)

lemma distance_Am7:
  "jsSub (avgFretDouble Am7_A_shape) nearTie = - (3077459745369839 / 2251799813685248)"
  "jsSub (avgFretDouble Am7_G_shape) nearTie = 3077459745369839 / 2251799813685248"
  "jsSub (avgFretDouble Am7_E_shape) nearTie = 3790529686370167 / 1125899906842624"
  "jsSub (avgFretDouble Am7_D_shape) nearTie = 3396464718975249 / 562949953421312"
  using double_distance_A double_distance_G double_distance_E double_distance_D
  by (simp_all add: jsSub_def avgFretDouble_Am7 nearTie_def)

lemma optimizeProgression_Am7:
  "optimizeProgression False [js ''Am7''] nearTie 7 = Some [Am7_A_shape]"
  by (simp add: optimizeProgression_def allVoicings_candidates candidates_Am7 distance_Am7)

text \<open>
  Claim C1 as stated fails: the total cost that the returned choice minimizes is the one
  that the source computes, in doubles, and not the exact one. For the single chord Am7
  and the preferred fret 1.9666666666666668, which is a double, the source returns the
  A-shape. The G-shape is a candidate too, and in exact arithmetic its mean fret is the
  closer one to the preferred fret, both when the mean fret is the exact quotient and
  when it is the double that the voicing holds. The two distances are equal once they
  are rounded, and the search keeps the first of two equals.
\<close>

theorem optimizeProgression_rounding_counterexample:
  "roundDouble nearTie = nearTie
   \<and> optimizeProgression False [js ''Am7''] nearTie 7 = Some [Am7_A_shape]
   \<and> Am7_G_shape \<in> set (candidates False nearTie 7 (js ''Am7''))
   \<and> exactTotalCost nearTie [Am7_G_shape] < exactTotalCost nearTie [Am7_A_shape]
   \<and> \<bar>avgFretDouble Am7_G_shape - nearTie\<bar> < \<bar>avgFretDouble Am7_A_shape - nearTie\<bar>
   \<and> totalCost nearTie [Am7_G_shape] = totalCost nearTie [Am7_A_shape]"
proof -
  have "roundDouble nearTie = nearTie" using double_preferred by (simp add: nearTie_def)
  moreover have "Am7_G_shape \<in> set (candidates False nearTie 7 (js ''Am7''))"
    by (simp add: candidates_Am7)
  moreover have "exactTotalCost nearTie [Am7_G_shape] < exactTotalCost nearTie [Am7_A_shape]"
    by (simp add: exactTotalCost_def Am7_G_shape_def Am7_A_shape_def nearTie_def)
  moreover have "\<bar>avgFretDouble Am7_G_shape - nearTie\<bar> < \<bar>avgFretDouble Am7_A_shape - nearTie\<bar>"
    by (simp add: avgFretDouble_Am7 nearTie_def)
  moreover have "totalCost nearTie [Am7_G_shape] = totalCost nearTie [Am7_A_shape]"
    by (simp add: totalCost_def distance_Am7)
  ultimately show ?thesis using optimizeProgression_Am7 by simp
qed

section \<open>The progression optimizer: the optimum\<close>

text \<open>
  Claim C1, amended: for a list of chord names that is not empty and in which every
  chord has a candidate, \<open>optimizeProgression\<close> returns a list with exactly one voicing
  for each chord, each taken from the candidates of its chord, and no other choice of one
  candidate per chord has a smaller total cost as the source computes it: the distance of
  the first voicing's mean fret from the preferred fret, to which the movement cost of
  each consecutive pair is added in turn, every difference, product and sum rounded to
  the nearest double. The movement cost is twice the distance of the mean frets plus half
  the distance of the fret spans, less one for the same shape family. The candidates of a
  chord are its voicings up to fret 15 whose mean fret lies between the rounded ends of
  the preferred range, or all of them when none does.
\<close>

theorem optimizeProgression_optimal:
  assumes "chordNames \<noteq> []"
    and "\<forall>c \<in> set chordNames. candidates useFlats preferredFret fretRange c \<noteq> []"
  shows "\<exists>result.
           optimizeProgression useFlats chordNames preferredFret fretRange = Some result
         \<and> length result = length chordNames
         \<and> chooses result (map (candidates useFlats preferredFret fretRange) chordNames)
         \<and> (\<forall>path. chooses path (map (candidates useFlats preferredFret fretRange) chordNames)
               \<longrightarrow> totalCost preferredFret result \<le> totalCost preferredFret path)"
proof -
  let ?layers = "map (candidates useFlats preferredFret fretRange) chordNames"
  let ?d = "\<lambda>v. \<bar>jsSub (avgFretDouble v) preferredFret\<bar>"
  from assms(1) obtain c0 cs where cn: "chordNames = c0 # cs" by (cases chordNames) auto
  let ?vs0 = "candidates useFlats preferredFret fretRange c0"
  let ?rest = "map (candidates useFlats preferredFret fretRange) cs"
  from assms(2) cn have vs0: "?vs0 \<noteq> []" and rest: "\<forall>vs \<in> set ?rest. vs \<noteq> []" by auto
  have "\<exists>result.
           optimizeProgression useFlats chordNames preferredFret fretRange = Some result
         \<and> chooses result ?layers
         \<and> (\<forall>path. chooses path ?layers
               \<longrightarrow> totalCost preferredFret result \<le> totalCost preferredFret path)"
  proof (cases "cs = []")
    case True
    from vs0 obtain v vs where vvs: "?vs0 = v # vs" by (cases ?vs0) auto
    let ?r = "fold (\<lambda>v best. if ?d v < ?d best then v else best) vs v"
    from True cn vvs
    have opt: "optimizeProgression useFlats chordNames preferredFret fretRange = Some [?r]"
      by (simp add: optimizeProgression_def allVoicings_candidates)
    from fold_closest[of ?d vs v]
    have mem: "?r \<in> set (v # vs)" and least: "\<forall>x \<in> set (v # vs). ?d ?r \<le> ?d x"
      by blast+
    from mem True cn vvs have "chooses [?r] ?layers" by (simp add: chooses_def)
    moreover have "totalCost preferredFret [?r] \<le> totalCost preferredFret path"
      if "chooses path ?layers" for path
    proof -
      from that True cn vvs obtain x where "path = [x]" "x \<in> set (v # vs)"
        by (auto simp: chooses_def list_all2_Cons2)
      with least have "?d ?r \<le> ?d x" by blast
      with \<open>path = [x]\<close> show ?thesis by (simp only: totalCost_single)
    qed
    ultimately show ?thesis using opt by blast
  next
    case False
    let ?cells0 = "map (\<lambda>v. \<lparr>cost = Some \<bar>jsSub (avgFretDouble v) preferredFret\<bar>,
                                 prev = -1\<rparr>) ?vs0"
    let ?dp = "?cells0 # fillDP ?cells0 ?vs0 ?rest"
    from False cn
    have opt: "optimizeProgression useFlats chordNames preferredFret fretRange
                 = backtrack (rev ?layers) (rev ?dp) (bestEnding (last ?dp)) []"
      by (simp add: optimizeProgression_def allVoicings_candidates Let_def)
    from solved_fillDP[OF solved_first[OF vs0, of preferredFret] rest]
    have s: "solved preferredFret (rev ?layers) (rev ?dp)" by (simp add: cn)
    have "hd (rev ?dp) = last ?dp" by (simp add: hd_rev)
    with solved_best[OF s] opt show ?thesis by simp
  qed
  then obtain result where
    r: "optimizeProgression useFlats chordNames preferredFret fretRange = Some result"
      "chooses result ?layers"
      "\<forall>path. chooses path ?layers
               \<longrightarrow> totalCost preferredFret result \<le> totalCost preferredFret path"
    by blast
  from chooses_length[OF r(2)] have "length result = length chordNames" by simp
  with r show ?thesis by blast
qed

theorem optimizeProgression_optimal_witness:
  "(\<exists>result.
      optimizeProgression False [js ''Am'', js ''C''] 5 7 = Some result
    \<and> length result = 2
    \<and> chooses result (map (candidates False 5 7) [js ''Am'', js ''C'']))
   \<and> optimizeProgression False [js ''Am7''] nearTie 7 = Some [Am7_A_shape]
   \<and> chooses [Am7_G_shape] (map (candidates False nearTie 7) [js ''Am7''])
   \<and> totalCost nearTie [Am7_A_shape] \<le> totalCost nearTie [Am7_G_shape]"
proof -
  have ne: "[js ''Am'', js ''C''] \<noteq> []" by simp
  have c: "\<forall>c \<in> set [js ''Am'', js ''C'']. candidates False 5 7 c \<noteq> []"
    using generateAllVoicings_Am_C_nonempty by (simp add: candidates_nonempty)
  from optimizeProgression_optimal[OF ne c]
  have two: "\<exists>result.
      optimizeProgression False [js ''Am'', js ''C''] 5 7 = Some result
    \<and> length result = 2
    \<and> chooses result (map (candidates False 5 7) [js ''Am'', js ''C''])"
    by (auto simp: numeral_2_eq_2)
  have ne1: "[js ''Am7''] \<noteq> []" by simp
  have c1: "\<forall>c \<in> set [js ''Am7'']. candidates False nearTie 7 c \<noteq> []"
    by (simp add: candidates_Am7)
  have g: "chooses [Am7_G_shape] (map (candidates False nearTie 7) [js ''Am7''])"
    by (simp add: chooses_def candidates_Am7)
  from optimizeProgression_optimal[OF ne1 c1] g
  have "totalCost nearTie [Am7_A_shape] \<le> totalCost nearTie [Am7_G_shape]"
    by (auto simp: optimizeProgression_Am7)
  with two g show ?thesis by (simp add: optimizeProgression_Am7)
qed

end
